theory Spec2Isabelle
  imports Complex_Main "HOL-Library.Sublist" "HOL-Library.Log_Nat"
begin

section \<open>Values of the program\<close>

text \<open>
  The exception classes the modelled operations raise. Every one of them derives from
  Python's \<open>Exception\<close>, so each \<open>except Exception\<close> clause of the source
  handles all of them.
\<close>

datatype exn =
    FileNotFoundError | PermissionError | OSError
  | JSONDecodeError | UnicodeDecodeError
  | KeyError | TypeError | AttributeError | ValueError | OverflowError
  | URLError | HTTPError nat | TimeoutError

text \<open>
  A Python float is an IEEE-754 binary64 value. A finite one is kept exact, as a sign
  and a magnitude \<open>m * 2 ^ e\<close>; infinities and NaN are what \<open>json.load\<close> accepts as
  \<open>Infinity\<close>, \<open>-Infinity\<close> and \<open>NaN\<close>.
\<close>

datatype pyfloat = Finite bool nat int | Infinite bool | NaN

text \<open>
  What \<open>json.load\<close> returns: \<open>None\<close>, a bool, an int, a float, a str, a list or a
  dict with string keys (an association list, looked up with \<open>map_of\<close>).
\<close>

datatype json =
    JNull | JBool bool | JInt int | JFloat pyfloat | JStr string
  | JArr "json list" | JObj "(string \<times> json) list"

text \<open>Python's truth value of an object, as \<open>if x:\<close> and \<open>not x\<close> test it.\<close>

fun truthy :: "json \<Rightarrow> bool" where
  "truthy JNull = False"
| "truthy (JBool b) = b"
| "truthy (JInt i) = (i \<noteq> 0)"
| "truthy (JFloat (Finite s m e)) = (m \<noteq> 0)"
| "truthy (JFloat (Infinite s)) = True"
| "truthy (JFloat NaN) = True"
| "truthy (JStr s) = (s \<noteq> [])"
| "truthy (JArr xs) = (xs \<noteq> [])"
| "truthy (JObj kvs) = (kvs \<noteq> [])"

text \<open>\<open>x[key]\<close> with a string key: only a dict can be subscripted so.\<close>

fun getitem :: "json \<Rightarrow> string \<Rightarrow> exn + json" where
  "getitem (JObj kvs) k = (case map_of kvs k of None \<Rightarrow> Inl KeyError | Some v \<Rightarrow> Inr v)"
| "getitem _ k = Inl TypeError"

text \<open>\<open>x.get(key, default)\<close>: only a dict has the method.\<close>

fun get_default :: "json \<Rightarrow> string \<Rightarrow> json \<Rightarrow> exn + json" where
  "get_default (JObj kvs) k d = (case map_of kvs k of None \<Rightarrow> Inr d | Some v \<Rightarrow> Inr v)"
| "get_default _ k d = Inl AttributeError"

section \<open>fetch\_usage\<close>

text \<open>
  The cache file: its modification time and what \<open>open(CACHE_FILE)\<close> followed by
  \<open>json.load\<close> gives (an exception when the file is unreadable or is not JSON).
\<close>

record cache_file =
  mtime :: real
  load :: "exn + json"

text \<open>
  The world \<open>fetch_usage\<close> runs in. \<open>cache = None\<close>: the file does not exist.
  \<open>credentials\<close>: what opening and parsing the credential file gives. \<open>api\<close>: what
  the GET request with the given token, \<open>resp.read()\<close> and \<open>json.loads\<close> give.
  \<open>write_failure = None\<close>: writing the cache succeeds; \<open>Some (e, c)\<close>: it raises
  \<open>e\<close> and leaves the cache file as \<open>c\<close> (unchanged when \<open>open\<close> fails, truncated
  when \<open>json.dump\<close> fails). \<open>requests\<close> counts the calls of \<open>urlopen\<close>. Within one
  run nothing but the program's own write changes the cache file.
\<close>

record world =
  clock :: real
  cache :: "cache_file option"
  credentials :: "exn + json"
  api :: "json \<Rightarrow> exn + json"
  write_failure :: "(exn \<times> cache_file option) option"
  requests :: nat

definition CACHE_TTL :: real where
  "CACHE_TTL = 120"

definition read_cache :: "world \<Rightarrow> exn + json" where
  "read_cache w = (case cache w of None \<Rightarrow> Inl FileNotFoundError | Some c \<Rightarrow> load c)"

text \<open>
  The body of the first \<open>try\<close>: \<open>Inr (Some v)\<close> is \<open>return v\<close>, \<open>Inr None\<close> is
  leaving the block without returning.
\<close>

definition try_cache :: "world \<Rightarrow> exn + json option" where
  "try_cache w =
     (case cache w of
        None \<Rightarrow> Inr None
      | Some c \<Rightarrow>
          (let age = clock w - mtime c in
           if age < CACHE_TTL
           then (case read_cache w of Inl e \<Rightarrow> Inl e | Inr v \<Rightarrow> Inr (Some v))
           else Inr None))"

text \<open>The token: \<open>json.load(f)["claudeAiOauth"]["accessToken"]\<close>.\<close>

definition read_token :: "world \<Rightarrow> exn + json" where
  "read_token w =
     (case credentials w of
        Inl e \<Rightarrow> Inl e
      | Inr c \<Rightarrow>
          (case getitem c ''claudeAiOauth'' of
             Inl e \<Rightarrow> Inl e
           | Inr oauth \<Rightarrow> getitem oauth ''accessToken''))"

text \<open>The body of the second \<open>try\<close>, with the world it leaves.\<close>

definition fetch_api :: "world \<Rightarrow> (exn + json) \<times> world" where
  "fetch_api w =
     (case read_token w of
        Inl e \<Rightarrow> (Inl e, w)
      | Inr token \<Rightarrow>
          (let w1 = w\<lparr>requests := requests w + 1\<rparr> in
           case api w token of
             Inl e \<Rightarrow> (Inl e, w1)
           | Inr data \<Rightarrow>
               (case write_failure w of
                  Some (e, c) \<Rightarrow> (Inl e, w1\<lparr>cache := c\<rparr>)
                | None \<Rightarrow>
                    (Inr data, w1\<lparr>cache := Some \<lparr>mtime = clock w, load = Inr data\<rparr>\<rparr>))))"

text \<open>The handler of the second \<open>try\<close>: the cache file whatever its age, else \<open>{}\<close>.\<close>

definition stale_cache :: "world \<Rightarrow> json" where
  "stale_cache w = (case read_cache w of Inl e \<Rightarrow> JObj [] | Inr v \<Rightarrow> v)"

definition fetch_usage :: "world \<Rightarrow> (exn + json) \<times> world" where
  "fetch_usage w =
     (case try_cache w of
        Inr (Some v) \<Rightarrow> (Inr v, w)
      | _ \<Rightarrow>
          (case fetch_api w of
             (Inr data, w') \<Rightarrow> (Inr data, w')
           | (Inl e, w') \<Rightarrow> (Inr (stale_cache w'), w')))"

text \<open>
  Two readings of the world, used to state the properties below. First, the snapshot of
  the fresh-cache check when it applies: the file exists, is younger than the TTL and
  parses.
\<close>

definition fresh_cache :: "world \<Rightarrow> json option" where
  "fresh_cache w =
     (case cache w of
        None \<Rightarrow> None
      | Some c \<Rightarrow>
          if clock w - mtime c < CACHE_TTL
          then (case load c of Inl e \<Rightarrow> None | Inr v \<Rightarrow> Some v)
          else None)"

text \<open>Second, the outcome of the remote fetch: reading the token, then the request.\<close>

definition remote :: "world \<Rightarrow> exn + json" where
  "remote w = (case read_token w of Inl e \<Rightarrow> Inl e | Inr token \<Rightarrow> api w token)"

section \<open>Strings and numbers\<close>

text \<open>The decimal digits of a natural number, as \<open>str\<close> and \<open>%d\<close> write them.\<close>

definition digit_char :: "nat \<Rightarrow> char" where
  "digit_char n = ''0123456789'' ! n"

fun str_nat :: "nat \<Rightarrow> string" where
  "str_nat n = (if n < 10 then [digit_char n] else str_nat (n div 10) @ [digit_char (n mod 10)])"

declare str_nat.simps [simp del]

text \<open>\<open>s.zfill(w)\<close> for a string of digits.\<close>

definition zfill :: "nat \<Rightarrow> string \<Rightarrow> string" where
  "zfill w s = replicate (w - length s) CHR ''0'' @ s"

text \<open>
  \<open>s.replace(old, new)\<close> for a non-empty \<open>old\<close>: every occurrence, leftmost first,
  without overlaps.
\<close>

function str_replace :: "string \<Rightarrow> string \<Rightarrow> string \<Rightarrow> string" where
  "str_replace old new [] = []"
| "str_replace old new (c # cs) =
     (if old \<noteq> [] \<and> prefix old (c # cs)
      then new @ str_replace old new (drop (length old) (c # cs))
      else c # str_replace old new cs)"
  by pat_completeness auto
termination
  by (relation "measure (\<lambda>(old, new, s). length s)") auto

text \<open>\<open>s.lower()\<close> on ASCII text.\<close>

definition lower_char :: "char \<Rightarrow> char" where
  "lower_char c =
     (case map_of (zip ''ABCDEFGHIJKLMNOPQRSTUVWXYZ'' ''abcdefghijklmnopqrstuvwxyz'') c of
        None \<Rightarrow> c
      | Some d \<Rightarrow> d)"

definition lower :: "string \<Rightarrow> string" where
  "lower s = map lower_char s"

text \<open>\<open>sep.join(parts)\<close>.\<close>

fun join :: "string \<Rightarrow> string list \<Rightarrow> string" where
  "join sep [] = []"
| "join sep [x] = x"
| "join sep (x # y # ys) = x @ sep @ join sep (y # ys)"

text \<open>The integer nearest to \<open>a / b\<close>, a tie going to the even one (\<open>0 < b\<close>).\<close>

definition round_half_even :: "nat \<Rightarrow> nat \<Rightarrow> nat" where
  "round_half_even a b =
     (let q = a div b; r = a mod b in
      if 2 * r < b then q
      else if b < 2 * r then q + 1
      else if even q then q else q + 1)"

text \<open>\<open>2 ^ e \<le> n / d\<close>, for an exponent of either sign.\<close>

definition ratio_ge_pow2 :: "nat \<Rightarrow> nat \<Rightarrow> int \<Rightarrow> bool" where
  "ratio_ge_pow2 n d e = (if 0 \<le> e then d * 2 ^ nat e \<le> n else d \<le> n * 2 ^ nat (- e))"

text \<open>\<open>\<lfloor>log\<^sub>2 (n / d)\<rfloor>\<close> for positive \<open>n\<close> and \<open>d\<close>, from their bit lengths.\<close>

definition floor_log2_ratio :: "nat \<Rightarrow> nat \<Rightarrow> int" where
  "floor_log2_ratio n d =
     (let e = int (floorlog 2 n) - int (floorlog 2 d) in
      if ratio_ge_pow2 n d e then e else e - 1)"

text \<open>
  The binary64 value nearest to \<open>n / d\<close> (round to nearest, ties to even, 53 significant
  bits), as a magnitude \<open>(m, e)\<close> standing for \<open>m * 2 ^ e\<close>. This is Python's true
  division \<open>n / d\<close> of two ints and its \<open>float(n)\<close> (with \<open>d = 1\<close>); the quotients
  formed here are zero or at least one millionth, so no subnormal arises.
\<close>

definition f64_ratio :: "nat \<Rightarrow> nat \<Rightarrow> nat \<times> int" where
  "f64_ratio n d =
     (if n = 0 then (0, 0)
      else
        (let s = 52 - floor_log2_ratio n d in
         (if 0 \<le> s then round_half_even (n * 2 ^ nat s) d
          else round_half_even n (d * 2 ^ nat (- s)),
          - s)))"

text \<open>\<open>n / d\<close> for non-negative ints \<open>n\<close> and positive \<open>d\<close>.\<close>

definition true_div :: "nat \<Rightarrow> nat \<Rightarrow> pyfloat" where
  "true_div n d = (case f64_ratio n d of (m, e) \<Rightarrow> Finite False m e)"

text \<open>\<open>float(i)\<close>: \<open>OverflowError\<close> when \<open>i\<close> is beyond the binary64 range.\<close>

definition float_of_int :: "int \<Rightarrow> exn + pyfloat" where
  "float_of_int i =
     (case f64_ratio (nat \<bar>i\<bar>) 1 of
        (m, e) \<Rightarrow>
          if 0 \<le> e \<and> 2 ^ 1024 \<le> m * 2 ^ nat e then Inl OverflowError
          else Inr (Finite (i < 0) m e))"

text \<open>\<open>\<lfloor>m * 2 ^ e\<rfloor>\<close>.\<close>

definition floor_mag :: "nat \<Rightarrow> int \<Rightarrow> nat" where
  "floor_mag m e = (if 0 \<le> e then m * 2 ^ nat e else m div 2 ^ nat (- e))"

text \<open>\<open>int(x)\<close> of a float: truncation towards zero.\<close>

fun py_int :: "pyfloat \<Rightarrow> exn + int" where
  "py_int (Finite s m e) = Inr (if s then - int (floor_mag m e) else int (floor_mag m e))"
| "py_int (Infinite s) = Inl OverflowError"
| "py_int NaN = Inl ValueError"

text \<open>\<open>x <= k\<close> for a float \<open>x\<close> and a non-negative int \<open>k\<close>.\<close>

fun float_le_nat :: "pyfloat \<Rightarrow> nat \<Rightarrow> bool" where
  "float_le_nat (Finite s m e) k =
     (s \<or> (if 0 \<le> e then m * 2 ^ nat e \<le> k else m \<le> k * 2 ^ nat (- e)))"
| "float_le_nat (Infinite s) k = s"
| "float_le_nat NaN k = False"

text \<open>
  \<open>format(x, ".pf")\<close>: the exact value of the float, correctly rounded to \<open>p\<close> decimals
  (ties to even), the sign kept also on a zero.
\<close>

fun format_f :: "nat \<Rightarrow> pyfloat \<Rightarrow> string" where
  "format_f p (Finite s m e) =
     (let scaled = (if 0 \<le> e then m * 2 ^ nat e * 10 ^ p
                    else round_half_even (m * 10 ^ p) (2 ^ nat (- e)))
      in (if s then ''-'' else []) @ str_nat (scaled div 10 ^ p) @
         (if p = 0 then [] else ''.'' @ zfill p (str_nat (scaled mod 10 ^ p))))"
| "format_f p (Infinite s) = (if s then ''-inf'' else ''inf'')"
| "format_f p NaN = ''nan''"

section \<open>format\_duration\<close>

text \<open>
  A \<open>timedelta\<close> is a whole number of microseconds. \<open>delta.total_seconds()\<close> is the
  true division of that number by \<open>10 ** 6\<close>.
\<close>

definition total_seconds :: "int \<Rightarrow> pyfloat" where
  "total_seconds delta =
     (case f64_ratio (nat \<bar>delta\<bar>) 1000000 of (m, e) \<Rightarrow> Finite (delta < 0) m e)"

definition format_duration :: "int \<Rightarrow> exn + string" where
  "format_duration delta =
     (case py_int (total_seconds delta) of
        Inl x \<Rightarrow> Inl x
      | Inr i \<Rightarrow>
          (let total_sec = nat (max 0 i);
               total_min = total_sec div 60
           in if total_min < 60 then Inr (str_nat total_min @ ''min'')
              else
                (let h = total_sec div 3600;
                     rem_sec = total_sec mod 3600;
                     m = rem_sec div 60
                 in if h < 24
                    then Inr (if m \<noteq> 0 then str_nat h @ ''h '' @ str_nat m @ ''m''
                              else str_nat h @ ''h'')
                    else
                      (let days = true_div total_min 1440
                       in Inr (str_replace ''.0d'' ''d'' (format_f 1 days @ ''d''))))))"

section \<open>format\_reset\<close>

text \<open>
  Instants are whole microseconds. A \<open>datetime\<close> object is its wall-clock reading,
  counted from \<open>datetime.min\<close> (0001-01-01T00:00:00), with its UTC offset; a naive one
  has none. \<open>datetime\<close> values end at 9999-12-31T23:59:59.999999, and arithmetic that
  leaves the range raises \<open>OverflowError\<close>.
\<close>

record datetime =
  wall :: int
  utcoffset :: "int option"

definition DAY :: int where
  "DAY = 86400000000"

definition HOUR :: int where
  "HOUR = 3600000000"

definition MINUTE :: int where
  "MINUTE = 60000000"

definition MAXORDINAL :: int where
  "MAXORDINAL = 3652059"

definition checked :: "int \<Rightarrow> exn + int" where
  "checked t = (if 0 \<le> t \<and> t < MAXORDINAL * DAY then Inr t else Inl OverflowError)"

text \<open>The zone of line 44, \<open>timezone(timedelta(hours=-6))\<close>, as its offset.\<close>

definition CST :: int where
  "CST = - 6 * HOUR"

text \<open>
  What the host provides: the library's parser \<open>datetime.fromisoformat\<close> (its accepted
  syntax differs between Python versions), the UTC offset the system's local zone gives
  a naive wall-clock reading, and the current instant in UTC.
\<close>

record host =
  fromisoformat :: "string \<Rightarrow> exn + datetime"
  local_utcoffset :: "int \<Rightarrow> exn + int"
  utcnow :: int

text \<open>
  \<open>d.astimezone(CST)\<close>, as the wall-clock reading in CST: the datetime is moved to
  UTC, then to the zone; a naive datetime is taken in the system's local zone.
\<close>

definition astimezone_CST :: "host \<Rightarrow> datetime \<Rightarrow> exn + int" where
  "astimezone_CST h d =
     (case (case utcoffset d of Some off \<Rightarrow> Inr off | None \<Rightarrow> local_utcoffset h (wall d)) of
        Inl x \<Rightarrow> Inl x
      | Inr off \<Rightarrow>
          (case checked (wall d - off) of
             Inl x \<Rightarrow> Inl x
           | Inr utc \<Rightarrow> checked (utc + CST)))"

text \<open>\<open>datetime.now(CST)\<close>.\<close>

definition now_CST :: "host \<Rightarrow> exn + int" where
  "now_CST h = checked (utcnow h + CST)"

text \<open>
  Line 110: \<open>datetime.fromisoformat(resets_at.replace("Z", "+00:00")).astimezone(CST)\<close>.
  Only a str has \<open>replace\<close>.
\<close>

definition parse_reset :: "host \<Rightarrow> json \<Rightarrow> exn + int" where
  "parse_reset h resets_at =
     (case resets_at of
        JStr s \<Rightarrow>
          (case fromisoformat h (str_replace ''Z'' ''+00:00'' s) of
             Inl x \<Rightarrow> Inl x
           | Inr d \<Rightarrow> astimezone_CST h d)
      | _ \<Rightarrow> Inl AttributeError)"

definition hour_of :: "int \<Rightarrow> nat" where
  "hour_of t = nat ((t mod DAY) div HOUR)"

definition minute_of :: "int \<Rightarrow> nat" where
  "minute_of t = nat ((t mod HOUR) div MINUTE)"

text \<open>
  \<open>dt.strftime("%-I:%M%p")\<close> (\<open>%#I\<close> on Windows): the hour of the 12-hour clock
  without padding, the minute on two digits, and \<open>AM\<close> or \<open>PM\<close> of the C locale.
\<close>

definition strftime_clock :: "int \<Rightarrow> string" where
  "strftime_clock t =
     (let h12 = hour_of t mod 12 in
      str_nat (if h12 = 0 then 12 else h12) @ '':'' @ zfill 2 (str_nat (minute_of t)) @
      (if hour_of t < 12 then ''AM'' else ''PM''))"

text \<open>The tables and the conversion of a day ordinal to year, month and day of the
  \<open>datetime\<close> module (\<open>_ord2ymd\<close>); index 0 of the tables is a placeholder.\<close>

definition DAYS_IN_MONTH :: "nat list" where
  "DAYS_IN_MONTH = [0, 31, 28, 31, 30, 31, 30, 31, 31, 30, 31, 30, 31]"

definition DAYS_BEFORE_MONTH :: "nat list" where
  "DAYS_BEFORE_MONTH = [0, 0, 31, 59, 90, 120, 151, 181, 212, 243, 273, 304, 334]"

definition ord2ymd :: "nat \<Rightarrow> nat \<times> nat \<times> nat" where
  "ord2ymd ordinal =
     (let n = ordinal - 1;
          n400 = n div 146097; r400 = n mod 146097;
          n100 = r400 div 36524; r100 = r400 mod 36524;
          n4 = r100 div 1461; r4 = r100 mod 1461;
          n1 = r4 div 365; r1 = r4 mod 365;
          year = n400 * 400 + 1 + n100 * 100 + n4 * 4 + n1
      in if n1 = 4 \<or> n100 = 4 then (year - 1, 12, 31)
         else
           (let leapyear = (n1 = 3 \<and> (n4 \<noteq> 24 \<or> n100 = 3));
                month = (r1 + 50) div 32;
                preceding = DAYS_BEFORE_MONTH ! month + (if 2 < month \<and> leapyear then 1 else 0)
            in if r1 < preceding
               then
                 (let month' = month - 1;
                      preceding' = preceding -
                        (DAYS_IN_MONTH ! month' + (if month' = 2 \<and> leapyear then 1 else 0))
                  in (year, month', r1 - preceding' + 1))
               else (year, month, r1 - preceding + 1)))"

text \<open>\<open>dt.toordinal()\<close> of the date of an instant.\<close>

definition toordinal :: "int \<Rightarrow> nat" where
  "toordinal t = nat (t div DAY) + 1"

text \<open>\<open>dt.strftime("%-m/%-d")\<close>: month and day without padding.\<close>

definition strftime_date :: "int \<Rightarrow> string" where
  "strftime_date t =
     (case ord2ymd (toordinal t) of (y, m, d) \<Rightarrow> str_nat m @ ''/'' @ str_nat d)"

text \<open>
  Lines 113 to 115: the clock text \<open>h\<close>, the lowercased \<open>strftime\<close> output with
  \<open>:00\<close> removed when it ends in \<open>:00am\<close> or \<open>:00pm\<close>.
\<close>

definition clock_text :: "int \<Rightarrow> string" where
  "clock_text dt =
     (let h = lower (strftime_clock dt)
      in if suffix '':00am'' h \<or> suffix '':00pm'' h then str_replace '':00'' [] h else h)"

text \<open>
  Lines 112 to 125, for the reset instant \<open>dt\<close> and \<open>now\<close>, both in CST. Two dates
  are equal when the instants fall on the same day of the calendar.
\<close>

definition reset_text :: "int \<Rightarrow> int \<Rightarrow> exn + string" where
  "reset_text dt now =
     (let h = clock_text dt;
          delta = (if now < dt then dt - now else 0)
      in case (if now < dt then format_duration delta else Inr ''now'') of
           Inl x \<Rightarrow> Inl x
         | Inr dur \<Rightarrow>
             (let show_time = float_le_nat (total_seconds delta) 86400
              in if dt div DAY = now div DAY
                 then Inr ('' ('' @ dur @ '' - '' @ h @ '')'')
                 else
                   (case checked (now + DAY) of
                      Inl x \<Rightarrow> Inl x
                    | Inr tomorrow \<Rightarrow>
                        if dt div DAY = tomorrow div DAY
                        then Inr (if show_time then '' ('' @ dur @ '' - tmrw '' @ h @ '')''
                                  else '' ('' @ dur @ '' - tmrw)'')
                        else
                          (let date_str = strftime_date dt
                           in Inr (if show_time
                                   then '' ('' @ dur @ '' - '' @ date_str @ '' '' @ h @ '')''
                                   else '' ('' @ dur @ '' - '' @ date_str @ '')'')))))"

text \<open>The body of the \<open>try\<close> of \<open>format_reset\<close>.\<close>

definition format_reset_body :: "host \<Rightarrow> json \<Rightarrow> exn + string" where
  "format_reset_body h resets_at =
     (case parse_reset h resets_at of
        Inl x \<Rightarrow> Inl x
      | Inr dt \<Rightarrow>
          (case now_CST h of
             Inl x \<Rightarrow> Inl x
           | Inr now \<Rightarrow> reset_text dt now))"

definition format_reset :: "host \<Rightarrow> json \<Rightarrow> exn + string" where
  "format_reset h resets_at =
     (if \<not> truthy resets_at then Inr []
      else (case format_reset_body h resets_at of Inl x \<Rightarrow> Inr [] | Inr s \<Rightarrow> Inr s))"

section \<open>main\<close>

text \<open>\<open>f"{util:.0f}"\<close>: an int is converted to a float first; a bool is an int.\<close>

fun format_util :: "json \<Rightarrow> exn + string" where
  "format_util (JInt i) =
     (case float_of_int i of Inl x \<Rightarrow> Inl x | Inr f \<Rightarrow> Inr (format_f 0 f))"
| "format_util (JBool b) = Inr (if b then ''1'' else ''0'')"
| "format_util (JFloat f) = Inr (format_f 0 f)"
| "format_util (JStr s) = Inl ValueError"
| "format_util _ = Inl TypeError"

text \<open>
  The block of one window (lines 136 to 139 and 142 to 145), for the value \<open>win\<close> of
  \<open>usage.get(key)\<close>: the line appended to \<open>parts\<close>, if any.
\<close>

definition window_line :: "host \<Rightarrow> string \<Rightarrow> json \<Rightarrow> exn + string option" where
  "window_line h label win =
     (if truthy win
      then
        (case get_default win ''utilization'' (JInt 0) of
           Inl x \<Rightarrow> Inl x
         | Inr util \<Rightarrow>
             (case get_default win ''resets_at'' JNull of
                Inl x \<Rightarrow> Inl x
              | Inr r \<Rightarrow>
                  (case format_reset h r of
                     Inl x \<Rightarrow> Inl x
                   | Inr reset_str \<Rightarrow>
                       (case format_util util of
                          Inl x \<Rightarrow> Inl x
                        | Inr u \<Rightarrow> Inr (Some (label @ '': '' @ u @ ''%'' @ reset_str))))))
      else Inr None)"

text \<open>Lines 133 to 147: the text given to \<open>print\<close> for the snapshot \<open>usage\<close>.\<close>

definition render :: "host \<Rightarrow> json \<Rightarrow> exn + string" where
  "render h usage =
     (case get_default usage ''five_hour'' JNull of
        Inl x \<Rightarrow> Inl x
      | Inr five \<Rightarrow>
          (case window_line h ''5h'' five of
             Inl x \<Rightarrow> Inl x
           | Inr p5 \<Rightarrow>
               (case get_default usage ''seven_day'' JNull of
                  Inl x \<Rightarrow> Inl x
                | Inr seven \<Rightarrow>
                    (case window_line h ''7d'' seven of
                       Inl x \<Rightarrow> Inl x
                     | Inr p7 \<Rightarrow>
                         Inr (join [CHR 0x0A] (case_option [] (\<lambda>l. [l]) p5 @
                                                case_option [] (\<lambda>l. [l]) p7))))))"

definition main :: "host \<Rightarrow> world \<Rightarrow> exn + string" where
  "main h w = (case fst (fetch_usage w) of Inl x \<Rightarrow> Inl x | Inr usage \<Rightarrow> render h usage)"

section \<open>Example inputs\<close>

definition snapshot_new :: json where
  "snapshot_new = JObj [(''five_hour'', JObj [(''utilization'', JInt 42)])]"

definition snapshot_old :: json where
  "snapshot_old = JObj [(''seven_day'', JObj [(''utilization'', JInt 7)])]"

definition creds_ok :: json where
  "creds_ok = JObj [(''claudeAiOauth'', JObj [(''accessToken'', JStr ''secret'')])]"

text \<open>A cache written 100 seconds ago.\<close>

definition world_fresh :: world where
  "world_fresh =
     \<lparr>clock = 1000, cache = Some \<lparr>mtime = 900, load = Inr snapshot_old\<rparr>,
      credentials = Inr creds_ok, api = (\<lambda>t. Inr snapshot_new),
      write_failure = None, requests = 0\<rparr>"

text \<open>A cache written 900 seconds ago and an endpoint that cannot be reached.\<close>

definition world_offline :: world where
  "world_offline =
     \<lparr>clock = 1000, cache = Some \<lparr>mtime = 100, load = Inr snapshot_old\<rparr>,
      credentials = Inr creds_ok, api = (\<lambda>t. Inl URLError),
      write_failure = None, requests = 0\<rparr>"

text \<open>An old cache, an endpoint that answers, and a cache file that is written.\<close>

definition world_online :: world where
  "world_online =
     \<lparr>clock = 1000, cache = Some \<lparr>mtime = 100, load = Inr snapshot_old\<rparr>,
      credentials = Inr creds_ok, api = (\<lambda>t. Inr snapshot_new),
      write_failure = None, requests = 0\<rparr>"

text \<open>
  No cache file, an endpoint that answers, and a configuration directory that cannot be
  written: \<open>open(CACHE_FILE, "w")\<close> raises and no file appears.
\<close>

definition world_readonly :: world where
  "world_readonly =
     \<lparr>clock = 1000, cache = None,
      credentials = Inr creds_ok, api = (\<lambda>t. Inr snapshot_new),
      write_failure = Some (PermissionError, None), requests = 0\<rparr>"

text \<open>
  A host whose clock reads 2025-01-16T03:30:00Z (21:30 of 15 January in CST) and whose
  parser reads the three timestamps used below.
\<close>

definition host_example :: host where
  "host_example =
     \<lparr>fromisoformat =
        (\<lambda>s. if s = ''2025-01-16T10:00:00+00:00''
             then Inr \<lparr>wall = 63872618400000000, utcoffset = Some 0\<rparr>
             else if s = ''2025-01-16T04:15:00+00:00''
             then Inr \<lparr>wall = 63872597700000000, utcoffset = Some 0\<rparr>
             else if s = ''2025-01-21T00:00:00+00:00''
             then Inr \<lparr>wall = 63873014400000000, utcoffset = Some 0\<rparr>
             else Inl ValueError),
      local_utcoffset = (\<lambda>t. Inr 0),
      utcnow = 63872595000000000\<rparr>"

text \<open>The same host eight and a half hours later, at 2025-01-16T12:00:00Z.\<close>

definition host_later :: host where
  "host_later = host_example\<lparr>utcnow := 63872625600000000\<rparr>"

text \<open>A utilization of 72.5, with no reset instant.\<close>

definition snapshot_half :: json where
  "snapshot_half = JObj [(''five_hour'', JObj [(''utilization'', JFloat (Finite False 145 (- 1)))])]"

text \<open>A world whose cache file, written 100 seconds ago, holds the given snapshot.\<close>

definition world_cached :: "json \<Rightarrow> world" where
  "world_cached snapshot =
     \<lparr>clock = 1000, cache = Some \<lparr>mtime = 900, load = Inr snapshot\<rparr>,
      credentials = Inl FileNotFoundError, api = (\<lambda>t. Inl URLError),
      write_failure = None, requests = 0\<rparr>"

text \<open>Two windows with a utilization; the first has a timestamp no parser accepts.\<close>

definition snapshot_soon :: json where
  "snapshot_soon =
     JObj [(''five_hour'', JObj [(''utilization'', JInt 42), (''resets_at'', JStr ''soon'')]),
           (''seven_day'', JObj [(''utilization'', JInt 7)])]"

text \<open>The same first window with \<open>"utilization": null\<close>.\<close>

definition snapshot_null_util :: json where
  "snapshot_null_util =
     JObj [(''five_hour'', JObj [(''utilization'', JNull), (''resets_at'', JStr ''soon'')])]"

text \<open>Two windows without utilization.\<close>

definition snapshot_bare :: json where
  "snapshot_bare =
     JObj [(''five_hour'', JObj [(''resets_at'', JStr ''soon'')]),
           (''seven_day'', JObj [(''resets_at'', JStr ''soon'')])]"

text \<open>A window without utilization beside a window with \<open>"utilization": null\<close>.\<close>

definition snapshot_bare_null :: json where
  "snapshot_bare_null =
     JObj [(''five_hour'', JObj [(''resets_at'', JStr ''soon'')]),
           (''seven_day'', JObj [(''utilization'', JNull)])]"

text \<open>A window that is null beside a window without utilization.\<close>

definition snapshot_null_window :: json where
  "snapshot_null_window =
     JObj [(''five_hour'', JNull), (''seven_day'', JObj [(''resets_at'', JStr ''soon'')])]"

section \<open>Properties of rounding and of binary64 division\<close>

lemma ratio_ge_pow2_real: "ratio_ge_pow2 n d e \<longleftrightarrow> 2 powi e * real d \<le> real n"
proof (cases "0 \<le> e")
  case True
  then have p: "2 powi e = (2::real) ^ nat e" by (simp add: power_int_def)
  have "(d * 2 ^ nat e \<le> n) = (real (d * 2 ^ nat e) \<le> real n)"
    by (simp only: of_nat_le_iff)
  with True show ?thesis by (simp add: ratio_ge_pow2_def p mult.commute)
next
  case False
  then have p: "2 powi e = 1 / (2::real) ^ nat (- e)" by (simp add: power_int_def field_simps)
  have "(d \<le> n * 2 ^ nat (- e)) = (real d \<le> real (n * 2 ^ nat (- e)))"
    by (simp only: of_nat_le_iff)
  with False show ?thesis by (simp add: ratio_ge_pow2_def p field_simps)
qed

lemma floorlog2_real:
  assumes "0 < n"
  shows "2 powi (int (floorlog 2 n) - 1) \<le> real n" and "real n < 2 powi (int (floorlog 2 n))"
proof -
  from floorlog_bounds [of n 2] assms
  have lo: "2 ^ (floorlog 2 n - 1) \<le> n" and hi: "n < 2 ^ floorlog 2 n" by simp_all
  have "0 < floorlog 2 n" using assms by (simp add: floorlog_def)
  then obtain k where k: "floorlog 2 n = Suc k" by (cases "floorlog 2 n") simp_all
  have "real (2 ^ k) \<le> real n" using lo unfolding k by (simp only: of_nat_le_iff diff_Suc_1)
  then show "2 powi (int (floorlog 2 n) - 1) \<le> real n" unfolding k by simp
  have "real n < real (2 ^ floorlog 2 n)" using hi by (simp only: of_nat_less_iff)
  then show "real n < 2 powi (int (floorlog 2 n))" by simp
qed

lemma floor_log2_ratio_bounds:
  assumes "0 < n" and "0 < d"
  shows "2 powi (floor_log2_ratio n d) * real d \<le> real n"
    and "real n < 2 powi (floor_log2_ratio n d + 1) * real d"
proof -
  define bn bd where "bn = int (floorlog 2 n)" and "bd = int (floorlog 2 d)"
  define e where "e = bn - bd"
  note n = floorlog2_real [OF assms(1), folded bn_def]
  note d = floorlog2_real [OF assms(2), folded bd_def]
  have L: "floor_log2_ratio n d = (if 2 powi e * real d \<le> real n then e else e - 1)"
    by (simp add: floor_log2_ratio_def Let_def ratio_ge_pow2_real e_def bn_def bd_def)
  have up: "real n < 2 powi (e + 1) * real d"
  proof -
    have "real n < 2 powi bn" by (rule n(2))
    also have "\<dots> = 2 powi (e + 1) * 2 powi (bd - 1)"
      by (simp add: e_def flip: power_int_add)
    also have "\<dots> \<le> 2 powi (e + 1) * real d"
      using d(1) by (simp add: mult_left_mono)
    finally show ?thesis .
  qed
  have low: "2 powi (e - 1) * real d \<le> real n"
  proof -
    have "2 powi (e - 1) * real d \<le> 2 powi (e - 1) * 2 powi bd"
      using d(2) by (simp add: mult_left_mono)
    also have "\<dots> = 2 powi (bn - 1)"
      by (simp add: e_def flip: power_int_add)
    also have "\<dots> \<le> real n" by (rule n(1))
    finally show ?thesis .
  qed
  show "2 powi (floor_log2_ratio n d) * real d \<le> real n"
    using low by (simp add: L)
  show "real n < 2 powi (floor_log2_ratio n d + 1) * real d"
    using up by (auto simp add: L)
qed


lemma rhe_bounds:
  assumes "0 < b"
  shows "2 * b * round_half_even a b \<le> 2 * a + b \<and> 2 * a \<le> 2 * b * round_half_even a b + b"
proof -
  define q r where "q = a div b" and "r = a mod b"
  have a: "a = b * q + r" by (simp add: q_def r_def)
  have r: "r < b" using assms by (simp add: r_def)
  have rhe: "round_half_even a b = (if 2 * r < b then q else if b < 2 * r then q + 1 else if even q then q else q + 1)"
    by (simp add: round_half_even_def Let_def q_def r_def)
  show ?thesis
    unfolding rhe using r by (auto simp: a algebra_simps)
qed

lemma rhe_le:
  assumes "0 < b" and "a \<le> N * b"
  shows "round_half_even a b \<le> N"
proof (rule ccontr)
  assume "\<not> round_half_even a b \<le> N"
  then have "N + 1 \<le> round_half_even a b" by simp
  then have "b * (N + 1) \<le> b * round_half_even a b" by (rule mult_le_mono2)
  with rhe_bounds [OF assms(1), of a] assms show False by (simp add: algebra_simps)
qed

lemma rhe_ge:
  assumes "0 < b" and "N * b \<le> a"
  shows "N \<le> round_half_even a b"
proof (rule ccontr)
  assume "\<not> N \<le> round_half_even a b"
  then have "round_half_even a b + 1 \<le> N" by simp
  then have "b * (round_half_even a b + 1) \<le> b * N" by (rule mult_le_mono2)
  with rhe_bounds [OF assms(1), of a] assms show False by (simp add: algebra_simps)
qed

lemma rhe_gt:
  assumes "0 < b" and "b < 2 * c" and "N * b + c \<le> a"
  shows "N < round_half_even a b"
proof (rule ccontr)
  assume "\<not> N < round_half_even a b"
  then have "round_half_even a b \<le> N" by simp
  then have le: "b * round_half_even a b \<le> b * N" by (rule mult_le_mono2)
  have 1: "2 * a \<le> 2 * (b * round_half_even a b) + b"
    using rhe_bounds [OF assms(1), of a] by (simp only: mult.assoc)
  have 2: "b * N + c \<le> a" using assms(3) by (simp only: mult.commute)
  from 1 2 le assms(2) show False by linarith
qed

lemma rhe_lt:
  assumes "0 < b" and "b < 2 * c" and "a + c \<le> N * b"
  shows "round_half_even a b < N"
proof (rule ccontr)
  assume "\<not> round_half_even a b < N"
  then have "N \<le> round_half_even a b" by simp
  then have le: "b * N \<le> b * round_half_even a b" by (rule mult_le_mono2)
  have 1: "2 * (b * round_half_even a b) \<le> 2 * a + b"
    using rhe_bounds [OF assms(1), of a] by (simp only: mult.assoc)
  have 2: "a + c \<le> b * N" using assms(3) by (simp only: mult.commute)
  from 1 2 le assms(2) show False by linarith
qed

lemma f64_ratio_normal:
  assumes "0 < n" and "0 < d" and "n < d * 2 ^ 53"
  obtains s where "f64_ratio n d = (round_half_even (n * 2 ^ s) d, - int s)"
    and "d * 2 ^ 52 \<le> n * 2 ^ s" and "n * 2 ^ s < d * 2 ^ 53"
proof -
  define L where "L = floor_log2_ratio n d"
  note b = floor_log2_ratio_bounds [OF assms(1,2), folded L_def]
  have dpos: "0 < real d" using assms(2) by simp
  have "real n < real (d * 2 ^ 53)" using assms(3) by (simp only: of_nat_less_iff)
  then have "real n < 2 powi 53 * real d" by simp
  with b(1) have "2 powi L * real d < 2 powi 53 * real d" by (rule le_less_trans)
  then have lt: "(2::real) powi L < 2 powi 53" using dpos by (simp only: mult_less_cancel_right_pos)
  have "L < 53"
  proof (rule ccontr)
    assume "\<not> L < 53"
    then have "(2::real) powi 53 \<le> 2 powi L" by (intro power_int_increasing) simp_all
    with lt show False by simp
  qed
  define s where "s = nat (52 - L)"
  have sL: "int s = 52 - L" using \<open>L < 53\<close> by (simp add: s_def)
  have p: "(2::real) ^ s = 2 powi (52 - L)" unfolding sL [symmetric] by simp
  have 1: "f64_ratio n d = (round_half_even (n * 2 ^ s) d, - int s)"
    using assms(1) \<open>L < 53\<close> by (simp add: f64_ratio_def Let_def s_def flip: L_def)
  have "(2::real) powi ((52 - L) + L) = 2 powi (52 - L) * 2 powi L"
    by (rule power_int_add) simp
  then have e1: "(2::real) powi 52 = 2 powi (52 - L) * 2 powi L" by simp
  have "(2::real) powi ((52 - L) + (L + 1)) = 2 powi (52 - L) * 2 powi (L + 1)"
    by (rule power_int_add) simp
  then have e2: "(2::real) powi 53 = 2 powi (52 - L) * 2 powi (L + 1)" by simp
  have "2 powi (52 - L) * (2 powi L * real d) \<le> 2 powi (52 - L) * real n"
    using b(1) by (simp only: mult_le_cancel_left_pos zero_less_power_int zero_less_numeral)
  then have "2 powi 52 * real d \<le> 2 ^ s * real n"
    by (simp only: e1 p mult.assoc)
  then have "real (d * 2 ^ 52) \<le> real (n * 2 ^ s)" by (simp add: mult.commute)
  then have 2: "d * 2 ^ 52 \<le> n * 2 ^ s" by (simp only: of_nat_le_iff)
  have "2 powi (52 - L) * real n < 2 powi (52 - L) * (2 powi (L + 1) * real d)"
    using b(2) by (simp only: mult_less_cancel_left_pos zero_less_power_int zero_less_numeral)
  then have "2 ^ s * real n < 2 powi 53 * real d"
    by (simp only: e2 p mult.assoc)
  then have "real (n * 2 ^ s) < real (d * 2 ^ 53)" by (simp add: mult.commute)
  then have 3: "n * 2 ^ s < d * 2 ^ 53" by (simp only: of_nat_less_iff)
  from 1 2 3 show ?thesis by (rule that)
qed

lemma floor_mag_neg: "floor_mag m (- int s) = m div 2 ^ s"
  by (cases "s = 0") (simp_all add: floor_mag_def)

lemma total_seconds_zero: "total_seconds 0 = Finite False 0 0"
  by (simp add: total_seconds_def f64_ratio_def)

lemma total_seconds_int:
  assumes "0 \<le> delta" and "delta < 2 ^ 34 * 1000000"
  shows "py_int (total_seconds delta) = Inr (delta div 1000000)"
proof (cases "delta = 0")
  case True
  then show ?thesis by (simp add: total_seconds_zero floor_mag_def)
next
  case False
  define n where "n = nat delta"
  define d :: nat where "d = 1000000"
  define q where "q = n div d"
  have npos: "0 < n" and nd: "int n = delta" using assms False by (simp_all add: n_def)
  have dpos: "0 < d" by (simp add: d_def)
  have nlt: "n < 2 ^ 34 * d" using assms nd by (simp add: d_def n_def)
  then have "n < d * 2 ^ 53" by (simp add: d_def)
  from f64_ratio_normal [OF npos dpos this]
  obtain s where f: "f64_ratio n d = (round_half_even (n * 2 ^ s) d, - int s)"
    and lo: "d * 2 ^ 52 \<le> n * 2 ^ s" and hi: "n * 2 ^ s < d * 2 ^ 53" by blast
  define m where "m = round_half_even (n * 2 ^ s) d"
  have s19: "19 \<le> s"
  proof (rule ccontr)
    assume "\<not> 19 \<le> s"
    then have "s \<le> 18" by simp
    then have "(2::nat) ^ s \<le> 2 ^ 18" by (intro power_increasing) simp_all
    then have "n * 2 ^ s \<le> n * 2 ^ 18" by (rule mult_le_mono2)
    also have "\<dots> < (2 ^ 34 * d) * 2 ^ 18" using nlt by simp
    also have "\<dots> = d * 2 ^ 52" by simp
    finally show False using lo by simp
  qed
  then have "(2::nat) ^ 19 \<le> 2 ^ s" by (intro power_increasing) simp_all
  then have big: "d < 2 * 2 ^ s" by (simp add: d_def)
  have qd: "q * d \<le> n" and qd1: "n + 1 \<le> (q + 1) * d"
    using dpos by (simp_all add: q_def dividend_less_div_times Suc_leI)
  have "q * 2 ^ s * d \<le> n * 2 ^ s"
    using mult_le_mono1 [OF qd, of "2 ^ s"] by (simp add: mult_ac)
  from rhe_ge [OF dpos this] have ge: "q * 2 ^ s \<le> m" by (simp add: m_def)
  have "(n + 1) * 2 ^ s \<le> ((q + 1) * d) * 2 ^ s" using qd1 by (rule mult_le_mono1)
  then have "n * 2 ^ s + 2 ^ s \<le> (q + 1) * 2 ^ s * d" by (simp add: algebra_simps)
  from rhe_lt [OF dpos big this] have lt: "m < (q + 1) * 2 ^ s" by (simp add: m_def)
  have "m div 2 ^ s = q"
    using ge lt by (intro div_nat_eqI) (simp_all add: mult.commute)
  then have "floor_mag m (- int s) = q" by (simp add: floor_mag_neg)
  moreover have "total_seconds delta = Finite False m (- int s)"
    using assms f by (simp add: total_seconds_def m_def flip: n_def d_def)
  moreover have "int q = delta div 1000000"
    by (simp add: q_def d_def zdiv_int flip: nd)
  ultimately show ?thesis by simp
qed

lemma float_le_nat_neg_exp: "float_le_nat (Finite False m (- int s)) k \<longleftrightarrow> m \<le> k * 2 ^ s"
  by (cases "s = 0") simp_all

lemma show_time_iff:
  assumes "0 \<le> delta" and "delta < 2 ^ 53 * 1000000"
  shows "float_le_nat (total_seconds delta) 86400 \<longleftrightarrow> delta \<le> 86400000000"
proof (cases "delta = 0")
  case True
  then show ?thesis by (simp add: total_seconds_zero)
next
  case False
  define n where "n = nat delta"
  define d :: nat where "d = 1000000"
  have npos: "0 < n" and nd: "int n = delta" using assms False by (simp_all add: n_def)
  have dpos: "0 < d" by (simp add: d_def)
  have "n < d * 2 ^ 53" using assms nd by (simp add: d_def n_def)
  from f64_ratio_normal [OF npos dpos this]
  obtain s where f: "f64_ratio n d = (round_half_even (n * 2 ^ s) d, - int s)"
    and lo: "d * 2 ^ 52 \<le> n * 2 ^ s" and hi: "n * 2 ^ s < d * 2 ^ 53" by blast
  define m where "m = round_half_even (n * 2 ^ s) d"
  have ts: "total_seconds delta = Finite False m (- int s)"
    using assms f by (simp add: total_seconds_def m_def flip: n_def d_def)
  have "m \<le> 86400 * 2 ^ s \<longleftrightarrow> n \<le> 86400 * d"
  proof
    assume "n \<le> 86400 * d"
    then have "n * 2 ^ s \<le> (86400 * d) * 2 ^ s" by (rule mult_le_mono1)
    then have "n * 2 ^ s \<le> (86400 * 2 ^ s) * d" by (simp add: mult_ac)
    from rhe_le [OF dpos this] show "m \<le> 86400 * 2 ^ s" by (simp add: m_def)
  next
    assume le: "m \<le> 86400 * 2 ^ s"
    show "n \<le> 86400 * d"
    proof (rule ccontr)
      assume "\<not> n \<le> 86400 * d"
      then have "86400 * d + 1 \<le> n" by simp
      then have "(86400 * d + 1) * 2 ^ s \<le> n * 2 ^ s" by (rule mult_le_mono1)
      then have c: "(86400 * 2 ^ s) * d + 2 ^ s \<le> n * 2 ^ s" by (simp add: algebra_simps)
      show False
      proof (cases "d < 2 * 2 ^ s")
        case True
        from rhe_gt [OF dpos True c] le show False by (simp add: m_def)
      next
        case False
        have "2 ^ 52 * d \<le> n * 2 ^ s" using lo by (simp add: mult.commute)
        from rhe_ge [OF dpos this] have "2 ^ 52 \<le> m" by (simp add: m_def)
        with le False show False by (simp add: d_def)
      qed
    qed
  qed
  also have "n \<le> 86400 * d \<longleftrightarrow> delta \<le> 86400000000"
    using assms(1) by (simp add: d_def n_def nat_le_iff)
  finally show ?thesis by (simp only: ts float_le_nat_neg_exp)
qed

section \<open>Properties of the string functions and of format\_duration\<close>

lemma total_seconds_negative:
  assumes "delta < 0"
  shows "\<exists>i. py_int (total_seconds delta) = Inr i \<and> i \<le> 0"
  using assms by (simp add: total_seconds_def split: prod.splits)

lemma below_ten:
  assumes "j < (10::nat)"
  obtains "j = 0" | "j = 1" | "j = 2" | "j = 3" | "j = 4" | "j = 5" | "j = 6" | "j = 7"
    | "j = 8" | "j = 9"
  using assms by atomize_elim arith

lemma digit_char_digit: "j < 10 \<Longrightarrow> digit_char j \<in> set ''0123456789''"
  by (erule below_ten) (simp_all add: digit_char_def)

lemma digit_char_zero: "j < 10 \<Longrightarrow> digit_char j = CHR ''0'' \<longleftrightarrow> j = 0"
  by (erule below_ten) (simp_all add: digit_char_def)

lemma str_nat_small: "n < 10 \<Longrightarrow> str_nat n = [digit_char n]"
  by (simp add: str_nat.simps)

lemma str_nat_digits: "set (str_nat n) \<subseteq> set ''0123456789''"
proof (induction n rule: str_nat.induct)
  case (1 n)
  show ?case
  proof (cases "n < 10")
    case True
    then show ?thesis using digit_char_digit [of n] by (simp add: str_nat_small)
  next
    case False
    have "n mod 10 < 10" by simp
    from digit_char_digit [OF this] 1 [OF False] False show ?thesis
      by (subst str_nat.simps) simp
  qed
qed

lemma str_nat_not_empty: "str_nat n \<noteq> []"
  by (subst str_nat.simps) simp

lemma str_replace_skip:
  assumes "old = c # rest" and "c \<notin> set xs"
  shows "str_replace old new (xs @ ys) = xs @ str_replace old new ys"
  using assms(2) by (induction xs) (auto simp: assms(1))

lemma str_replace_absent:
  assumes "old = c # rest" and "c \<notin> set xs"
  shows "str_replace old new xs = xs"
  using str_replace_skip [OF assms, of new "[]"] by simp

lemma collapse_point_zero:
  assumes "j < 10"
  shows "str_replace ''.0d'' ''d'' (str_nat k @ ''.'' @ [digit_char j] @ ''d'') =
           (if j = 0 then str_nat k @ ''d'' else str_nat k @ ''.'' @ [digit_char j] @ ''d'')"
proof -
  have nodot: "CHR ''.'' \<notin> set (str_nat k)" using str_nat_digits [of k] by auto
  have "CHR ''.'' \<notin> set [digit_char j, CHR ''d'']"
    using digit_char_digit [OF assms] by auto
  then have tail: "str_replace ''.0d'' ''d'' [digit_char j, CHR ''d''] = [digit_char j, CHR ''d'']"
    by (intro str_replace_absent [where c = "CHR ''.''"]) simp_all
  have "str_replace ''.0d'' ''d'' (''.'' @ [digit_char j] @ ''d'') =
          (if j = 0 then ''d'' else ''.'' @ [digit_char j] @ ''d'')"
    using tail digit_char_zero [OF assms] by (auto simp: digit_char_def)
  then show ?thesis
    using str_replace_skip [of "''.0d''" "CHR ''.''" "''0d''" "str_nat k" "''d''", OF _ nodot]
    by simp
qed

lemma format_days:
  assumes "0 < mins" and "mins < 1440 * 2 ^ 43"
  obtains t where
    "format_f 1 (true_div mins 1440) = str_nat (t div 10) @ ''.'' @ [digit_char (t mod 10)]"
    and "144 * t \<le> mins + 72" and "mins \<le> 144 * t + 72"
proof -
  have "mins < 1440 * 2 ^ 53" using assms(2) by simp
  from f64_ratio_normal [OF assms(1) _ this]
  obtain s where f: "f64_ratio mins 1440 = (round_half_even (mins * 2 ^ s) 1440, - int s)"
    and lo: "1440 * 2 ^ 52 \<le> mins * 2 ^ s" by auto
  define m where "m = round_half_even (mins * 2 ^ s) 1440"
  define P :: nat where "P = 2 ^ s"
  define t where "t = round_half_even (m * 10) P"
  have s10: "10 \<le> s"
  proof (rule ccontr)
    assume "\<not> 10 \<le> s"
    then have "s \<le> 9" by simp
    then have "(2::nat) ^ s \<le> 2 ^ 9" by (intro power_increasing) simp_all
    then have "mins * 2 ^ s \<le> mins * 2 ^ 9" by (rule mult_le_mono2)
    also have "\<dots> < (1440 * 2 ^ 43) * 2 ^ 9" using assms(2) by simp
    also have "\<dots> = 1440 * 2 ^ 52" by simp
    finally show False using lo by simp
  qed
  then have "(2::nat) ^ 10 \<le> 2 ^ s" by (intro power_increasing) simp_all
  then have P: "1024 \<le> P" by (simp add: P_def)
  then have Ppos: "0 < P" by simp
  have m1: "2880 * m \<le> 2 * (mins * P) + 1440" and m2: "2 * (mins * P) \<le> 2880 * m + 1440"
    using rhe_bounds [of 1440 "mins * 2 ^ s"] by (simp_all add: m_def P_def)
  have t1: "2 * (P * t) \<le> 20 * m + P" and t2: "20 * m \<le> 2 * (P * t) + P"
    using rhe_bounds [OF Ppos, of "m * 10"] by (simp_all add: t_def mult.assoc)
  have fmt: "format_f 1 (true_div mins 1440) =
      str_nat (t div 10) @ ''.'' @ [digit_char (t mod 10)]"
    using s10 by (simp add: true_div_def f zfill_def str_nat_small Let_def m_def P_def t_def)
  have up: "144 * t \<le> mins + 72"
  proof (rule ccontr)
    assume "\<not> 144 * t \<le> mins + 72"
    then have "mins + 73 \<le> 144 * t" by simp
    then have "P * (mins + 73) \<le> P * (144 * t)" by (rule mult_le_mono2)
    then have "mins * P + 73 * P \<le> 144 * (P * t)" by (simp add: algebra_simps)
    with m1 t1 P show False by linarith
  qed
  have down: "mins \<le> 144 * t + 72"
  proof (rule ccontr)
    assume "\<not> mins \<le> 144 * t + 72"
    then have "144 * t + 73 \<le> mins" by simp
    then have "P * (144 * t + 73) \<le> P * mins" by (rule mult_le_mono2)
    then have "144 * (P * t) + 73 * P \<le> mins * P" by (simp add: algebra_simps)
    with m2 t2 P show False by linarith
  qed
  from fmt up down show ?thesis by (rule that)
qed

lemmas float_eval = total_seconds_def f64_ratio_def floor_log2_ratio_def ratio_ge_pow2_def
  compute_floorlog round_half_even_def true_div_def floor_mag_def Let_def

lemmas str_eval = str_nat.simps digit_char_def zfill_def


lemma format_f_one:
  "\<exists>t. format_f 1 (true_div n d) = str_nat (t div 10) @ ''.'' @ [digit_char (t mod 10)]"
proof -
  obtain m e where "f64_ratio n d = (m, e)" by (cases "f64_ratio n d")
  then show ?thesis
    by (intro exI [of _ "if 0 \<le> e then m * 2 ^ nat e * 10
                         else round_half_even (m * 10) (2 ^ nat (- e))"])
      (simp add: true_div_def Let_def zfill_def str_nat_small)
qed

lemma py_int_total_seconds:
  "\<exists>i. py_int (total_seconds delta) = Inr i
       \<and> (delta < 0 \<longrightarrow> i \<le> 0)
       \<and> (0 \<le> delta \<and> delta < 2 ^ 34 * 1000000 \<longrightarrow> i = delta div 1000000)"
proof (cases "delta < 0")
  case True
  with total_seconds_negative [OF True] show ?thesis by auto
next
  case False
  show ?thesis
  proof (cases "delta < 2 ^ 34 * 1000000")
    case True
    with False total_seconds_int [of delta] show ?thesis by simp
  next
    case big: False
    obtain m e where "f64_ratio (nat \<bar>delta\<bar>) 1000000 = (m, e)"
      by (cases "f64_ratio (nat \<bar>delta\<bar>) 1000000")
    with False big show ?thesis by (simp add: total_seconds_def)
  qed
qed

lemma days_text:
  "\<exists>t. (0 < mins \<and> mins < 1440 * 2 ^ 43 \<longrightarrow> 144 * t \<le> mins + 72 \<and> mins \<le> 144 * t + 72)
     \<and> str_replace ''.0d'' ''d'' (format_f 1 (true_div mins 1440) @ ''d'') =
         (if t mod 10 = 0 then str_nat (t div 10) @ ''d''
          else str_nat (t div 10) @ ''.'' @ str_nat (t mod 10) @ ''d'')"
proof -
  have collapse: "str_replace ''.0d'' ''d'' (format_f 1 (true_div mins 1440) @ ''d'') =
         (if t mod 10 = 0 then str_nat (t div 10) @ ''d''
          else str_nat (t div 10) @ ''.'' @ str_nat (t mod 10) @ ''d'')"
    if "format_f 1 (true_div mins 1440) = str_nat (t div 10) @ ''.'' @ [digit_char (t mod 10)]"
    for t
    unfolding that using collapse_point_zero [of "t mod 10" "t div 10"]
    by (simp add: str_nat_small)
  show ?thesis
  proof (cases "0 < mins \<and> mins < 1440 * 2 ^ 43")
    case True
    then have 1: "0 < mins" and 2: "mins < 1440 * 2 ^ 43" by simp_all
    from format_days [OF 1 2] obtain t
      where f: "format_f 1 (true_div mins 1440) =
                  str_nat (t div 10) @ ''.'' @ [digit_char (t mod 10)]"
      and b: "144 * t \<le> mins + 72" "mins \<le> 144 * t + 72" by blast
    from b collapse [OF f] show ?thesis by blast
  next
    case False
    from format_f_one [of mins 1440] obtain t
      where f: "format_f 1 (true_div mins 1440) =
                  str_nat (t div 10) @ ''.'' @ [digit_char (t mod 10)]"
      by blast
    from False collapse [OF f] show ?thesis by blast
  qed
qed

text \<open>
  Claim C5. \<open>format_duration\<close> works on the whole seconds \<open>secs\<close> of the span: zero for
  a negative span, and the span's seconds rounded down otherwise (shown here for spans
  below \<open>2\<^sup>3\<^sup>4\<close> seconds, over which the division by \<open>10 ** 6\<close> in binary64 cannot
  reach the next integer). Under 60 minutes the text is \<open>{minutes}min\<close>; else under
  24 hours it is \<open>{h}h {m}m\<close>, or \<open>{h}h\<close> when the minutes are zero; else it is the
  number \<open>t\<close> of tenths of days, written with one decimal and with \<open>.0\<close> dropped, and
  \<open>t\<close> is a nearest whole number of tenths to \<open>minutes / 1440\<close>. The five examples
  of the claim are evaluated.
\<close>

theorem format_duration_cases:
  "(\<exists>secs t.
      (delta < 0 \<longrightarrow> secs = 0)
      \<and> (0 \<le> delta \<and> delta < 2 ^ 34 * 1000000 \<longrightarrow> int secs = delta div 1000000)
      \<and> (1440 \<le> secs div 60 \<and> secs div 60 < 1440 * 2 ^ 43 \<longrightarrow>
           144 * t \<le> secs div 60 + 72 \<and> secs div 60 \<le> 144 * t + 72)
      \<and> format_duration delta =
          Inr (if secs div 60 < 60 then str_nat (secs div 60) @ ''min''
               else if secs div 3600 < 24
               then (if secs mod 3600 div 60 = 0 then str_nat (secs div 3600) @ ''h''
                     else str_nat (secs div 3600) @ ''h '' @ str_nat (secs mod 3600 div 60) @ ''m'')
               else if t mod 10 = 0 then str_nat (t div 10) @ ''d''
               else str_nat (t div 10) @ ''.'' @ str_nat (t mod 10) @ ''d''))
   \<and> format_duration 0 = Inr ''0min''
   \<and> format_duration 5400000000 = Inr ''1h 30m''
   \<and> format_duration 18000000000 = Inr ''5h''
   \<and> format_duration 172800000000 = Inr ''2d''
   \<and> format_duration 93600000000 = Inr ''1.1d''"
proof -
  obtain i where i: "py_int (total_seconds delta) = Inr i"
    and neg: "delta < 0 \<longrightarrow> i \<le> 0"
    and exact: "0 \<le> delta \<and> delta < 2 ^ 34 * 1000000 \<longrightarrow> i = delta div 1000000"
    using py_int_total_seconds [of delta] by blast
  define secs where "secs = nat (max 0 i)"
  obtain t where
    near: "0 < secs div 60 \<and> secs div 60 < 1440 * 2 ^ 43 \<longrightarrow>
           144 * t \<le> secs div 60 + 72 \<and> secs div 60 \<le> 144 * t + 72"
    and days: "str_replace ''.0d'' ''d'' (format_f 1 (true_div (secs div 60) 1440) @ ''d'') =
         (if t mod 10 = 0 then str_nat (t div 10) @ ''d''
          else str_nat (t div 10) @ ''.'' @ str_nat (t mod 10) @ ''d'')"
    using days_text [of "secs div 60"] by blast
  have 1: "delta < 0 \<longrightarrow> secs = 0" using neg by (simp add: secs_def)
  have 2: "0 \<le> delta \<and> delta < 2 ^ 34 * 1000000 \<longrightarrow> int secs = delta div 1000000"
    using exact by (auto simp: secs_def pos_imp_zdiv_nonneg_iff)
  have 3: "1440 \<le> secs div 60 \<and> secs div 60 < 1440 * 2 ^ 43 \<longrightarrow>
           144 * t \<le> secs div 60 + 72 \<and> secs div 60 \<le> 144 * t + 72"
    using near by simp
  have 4: "format_duration delta =
          Inr (if secs div 60 < 60 then str_nat (secs div 60) @ ''min''
               else if secs div 3600 < 24
               then (if secs mod 3600 div 60 = 0 then str_nat (secs div 3600) @ ''h''
                     else str_nat (secs div 3600) @ ''h '' @ str_nat (secs mod 3600 div 60) @ ''m'')
               else if t mod 10 = 0 then str_nat (t div 10) @ ''d''
               else str_nat (t div 10) @ ''.'' @ str_nat (t mod 10) @ ''d'')"
    unfolding format_duration_def i by (simp add: Let_def days del: One_nat_def flip: secs_def)
  have e1: "format_duration 0 = Inr ''0min''"
    by (simp add: format_duration_def float_eval str_eval)
  have e2: "format_duration 5400000000 = Inr ''1h 30m''"
    by (simp add: format_duration_def float_eval str_eval)
  have e3: "format_duration 18000000000 = Inr ''5h''"
    by (simp add: format_duration_def float_eval str_eval)
  have e4: "format_duration 172800000000 = Inr ''2d''"
    by (simp add: format_duration_def float_eval str_eval)
  have e5: "format_duration 93600000000 = Inr ''1.1d''"
    by (simp add: format_duration_def float_eval str_eval)
  from 1 2 3 4 have "\<exists>secs t.
      (delta < 0 \<longrightarrow> secs = 0)
      \<and> (0 \<le> delta \<and> delta < 2 ^ 34 * 1000000 \<longrightarrow> int secs = delta div 1000000)
      \<and> (1440 \<le> secs div 60 \<and> secs div 60 < 1440 * 2 ^ 43 \<longrightarrow>
           144 * t \<le> secs div 60 + 72 \<and> secs div 60 \<le> 144 * t + 72)
      \<and> format_duration delta =
          Inr (if secs div 60 < 60 then str_nat (secs div 60) @ ''min''
               else if secs div 3600 < 24
               then (if secs mod 3600 div 60 = 0 then str_nat (secs div 3600) @ ''h''
                     else str_nat (secs div 3600) @ ''h '' @ str_nat (secs mod 3600 div 60) @ ''m'')
               else if t mod 10 = 0 then str_nat (t div 10) @ ''d''
               else str_nat (t div 10) @ ''.'' @ str_nat (t mod 10) @ ''d'')"
    by blast
  with e1 e2 e3 e4 e5 show ?thesis by blast
qed


theorem format_duration_cases_witness:
  "(0::int) \<le> 93600000000 \<and> (93600000000::int) < 2 ^ 34 * 1000000
   \<and> format_duration 5400000000 = Inr ''1h 30m''
   \<and> format_duration 93600000000 = Inr ''1.1d''"
proof -
  from format_duration_cases [of 5400000000] obtain secs :: nat and t :: nat
    where "int secs = 5400000000 div 1000000"
      and "format_duration 5400000000 =
          Inr (if secs div 60 < 60 then str_nat (secs div 60) @ ''min''
               else if secs div 3600 < 24
               then (if secs mod 3600 div 60 = 0 then str_nat (secs div 3600) @ ''h''
                     else str_nat (secs div 3600) @ ''h '' @ str_nat (secs mod 3600 div 60) @ ''m'')
               else if t mod 10 = 0 then str_nat (t div 10) @ ''d''
               else str_nat (t div 10) @ ''.'' @ str_nat (t mod 10) @ ''d'')"
    by auto
  moreover from this(1) have "secs = 5400" by simp
  ultimately have a: "format_duration 5400000000 = Inr ''1h 30m''"
    by (simp add: str_eval)
  from format_duration_cases [of 93600000000] obtain secs :: nat and t :: nat
    where s: "int secs = 93600000000 div 1000000"
      and n: "1440 \<le> secs div 60 \<and> secs div 60 < 1440 * 2 ^ 43 \<longrightarrow>
           144 * t \<le> secs div 60 + 72 \<and> secs div 60 \<le> 144 * t + 72"
      and f: "format_duration 93600000000 =
          Inr (if secs div 60 < 60 then str_nat (secs div 60) @ ''min''
               else if secs div 3600 < 24
               then (if secs mod 3600 div 60 = 0 then str_nat (secs div 3600) @ ''h''
                     else str_nat (secs div 3600) @ ''h '' @ str_nat (secs mod 3600 div 60) @ ''m'')
               else if t mod 10 = 0 then str_nat (t div 10) @ ''d''
               else str_nat (t div 10) @ ''.'' @ str_nat (t mod 10) @ ''d'')"
    by auto
  from s have secs: "secs = 93600" by simp
  with n have "t = 11" by simp
  with f secs have b: "format_duration 93600000000 = Inr ''1.1d''"
    by (simp add: str_eval)
  from a b show ?thesis by simp
qed

section \<open>Properties of fetch\_usage\<close>

lemma try_cache_fresh: "try_cache w = Inr (Some v) \<longleftrightarrow> fresh_cache w = Some v"
  by (auto simp: try_cache_def fresh_cache_def read_cache_def Let_def
      split: option.splits sum.splits if_splits)

lemma fetch_usage_fresh: "fresh_cache w = Some v \<Longrightarrow> fetch_usage w = (Inr v, w)"
  by (simp add: fetch_usage_def try_cache_fresh [symmetric])

lemma fetch_usage_not_fresh:
  "fresh_cache w = None \<Longrightarrow>
   fetch_usage w =
     (case fetch_api w of
        (Inr data, w') \<Rightarrow> (Inr data, w')
      | (Inl e, w') \<Rightarrow> (Inr (stale_cache w'), w'))"
  using try_cache_fresh [of w]
  by (auto simp: fetch_usage_def split: sum.splits option.splits)

text \<open>The second \<open>try\<close> block in terms of the world: what it yields and what it leaves.\<close>

lemma fetch_api_remote_fails:
  "remote w = Inl e \<Longrightarrow> fst (fetch_api w) = Inl e \<and> cache (snd (fetch_api w)) = cache w"
  by (auto simp: fetch_api_def remote_def Let_def split: sum.splits)

lemma fetch_api_written:
  "remote w = Inr data \<Longrightarrow> write_failure w = None \<Longrightarrow>
   fetch_api w =
     (Inr data, w\<lparr>requests := requests w + 1,
                  cache := Some \<lparr>mtime = clock w, load = Inr data\<rparr>\<rparr>)"
  by (auto simp: fetch_api_def remote_def Let_def split: sum.splits)

lemma fetch_api_write_fails:
  "remote w = Inr data \<Longrightarrow> write_failure w = Some (e, c) \<Longrightarrow>
   fetch_api w = (Inl e, w\<lparr>requests := requests w + 1, cache := c\<rparr>)"
  by (auto simp: fetch_api_def remote_def Let_def split: sum.splits)

lemma stale_cache_cong: "cache w = cache w' \<Longrightarrow> stale_cache w = stale_cache w'"
  by (simp add: stale_cache_def read_cache_def)

lemma fresh_cache_Some_iff:
  "fresh_cache w = Some v \<longleftrightarrow>
   (\<exists>c. cache w = Some c \<and> clock w - mtime c < 120 \<and> load c = Inr v)"
  by (auto simp: fresh_cache_def CACHE_TTL_def split: option.splits sum.splits)

text \<open>
  Claim C1. Whatever the cache, the credentials and the network do, \<open>fetch_usage\<close>
  raises nothing: it returns a value, and the value is the fresh cached snapshot, or the
  snapshot just fetched and written, or the fallback (what the cache file holds at that
  moment, whatever its age, and \<open>{}\<close> when it cannot be read).
\<close>

theorem fetch_usage_never_raises:
  "\<exists>v. fst (fetch_usage w) = Inr v \<and>
       (fresh_cache w = Some v
        \<or> (remote w = Inr v \<and> write_failure w = None)
        \<or> v = stale_cache (snd (fetch_usage w)))"
proof (cases "fresh_cache w")
  case (Some v)
  then show ?thesis by (simp add: fetch_usage_fresh)
next
  case None
  note not_fresh = fetch_usage_not_fresh [OF None]
  show ?thesis
  proof (cases "remote w")
    case (Inl e)
    obtain r w' where fa: "fetch_api w = (r, w')" by (cases "fetch_api w")
    with fetch_api_remote_fails [OF Inl] have "r = Inl e" by simp
    with fa show ?thesis by (simp add: not_fresh)
  next
    case (Inr data)
    show ?thesis
    proof (cases "write_failure w")
      case None
      with Inr show ?thesis by (simp add: not_fresh fetch_api_written)
    next
      case (Some ec)
      obtain e c where "ec = (e, c)" by (cases ec)
      with Some Inr show ?thesis by (simp add: not_fresh fetch_api_write_fails)
    qed
  qed
qed

text \<open>
  Claim C2. When the cache file exists, parses as JSON and is younger than the TTL of
  120 seconds, \<open>fetch_usage\<close> returns the cached snapshot; it issues no request and
  leaves the cache file as it was.
\<close>

theorem fresh_cache_is_returned:
  assumes "cache w = Some c" and "load c = Inr v" and "clock w - mtime c < 120"
  shows "fst (fetch_usage w) = Inr v
         \<and> requests (snd (fetch_usage w)) = requests w
         \<and> cache (snd (fetch_usage w)) = cache w"
proof -
  from assms have "fresh_cache w = Some v"
    by (auto simp: fresh_cache_Some_iff)
  then show ?thesis by (simp add: fetch_usage_fresh)
qed

theorem fresh_cache_is_returned_witness:
  "cache world_fresh = Some \<lparr>mtime = 900, load = Inr snapshot_old\<rparr>
   \<and> load \<lparr>mtime = 900, load = Inr snapshot_old\<rparr> = Inr snapshot_old
   \<and> clock world_fresh - mtime \<lparr>mtime = 900, load = Inr snapshot_old\<rparr> < 120
   \<and> fst (fetch_usage world_fresh) = Inr snapshot_old
   \<and> requests (snd (fetch_usage world_fresh)) = 0"
  using fresh_cache_is_returned
    [of world_fresh "\<lparr>mtime = 900, load = Inr snapshot_old\<rparr>" snapshot_old]
  by (simp add: world_fresh_def)

text \<open>The empty snapshot prints as the empty text.\<close>

lemma render_empty: "render h (JObj []) = Inr []"
  by (simp add: render_def window_line_def)

text \<open>
  Claim C3. When the fresh-cache check does not apply and the remote fetch fails (the
  token cannot be read, or the request or the parsing of its answer raises),
  \<open>fetch_usage\<close> returns what the cache file holds, whatever its age, and the empty
  mapping when the file is missing or does not parse; the empty mapping is rendered as
  the empty text.
\<close>

theorem remote_failure_falls_back:
  assumes "fresh_cache w = None" and "remote w = Inl e"
  shows "fst (fetch_usage w) =
           Inr (case cache w of
                  None \<Rightarrow> JObj []
                | Some c \<Rightarrow> (case load c of Inl x \<Rightarrow> JObj [] | Inr v \<Rightarrow> v))
         \<and> render h (JObj []) = Inr []"
proof -
  obtain r w' where fa: "fetch_api w = (r, w')" by (cases "fetch_api w")
  with fetch_api_remote_fails [OF assms(2)] have r: "r = Inl e" and c: "cache w' = cache w"
    by simp_all
  have "fst (fetch_usage w) = Inr (stale_cache w')"
    by (simp add: fetch_usage_not_fresh [OF assms(1)] fa r)
  also have "stale_cache w' = stale_cache w"
    by (rule stale_cache_cong) (rule c)
  finally show ?thesis
    by (simp add: stale_cache_def read_cache_def render_empty split: option.splits)
qed

theorem remote_failure_falls_back_witness:
  "fresh_cache world_offline = None \<and> remote world_offline = Inl URLError
   \<and> fst (fetch_usage world_offline) = Inr snapshot_old"
  using remote_failure_falls_back [of world_offline URLError]
  by (simp add: world_offline_def fresh_cache_def remote_def read_token_def creds_ok_def
      CACHE_TTL_def)

text \<open>
  Claim C4 as stated fails: in a configuration directory that cannot be written and
  holds no cache file, the request succeeds with a snapshot, the write raises, and
  \<open>fetch_usage\<close> returns the empty mapping instead of the snapshot.
\<close>

theorem write_failure_counterexample:
  "fresh_cache world_readonly = None
   \<and> remote world_readonly = Inr snapshot_new
   \<and> write_failure world_readonly = Some (PermissionError, None)
   \<and> fst (fetch_usage world_readonly) = Inr (JObj [])
   \<and> fst (fetch_usage world_readonly) \<noteq> Inr snapshot_new"
  by (simp add: world_readonly_def fresh_cache_def remote_def read_token_def creds_ok_def
      fetch_usage_def try_cache_def fetch_api_def stale_cache_def read_cache_def
      snapshot_new_def)

text \<open>
  Claim C4, amended. When the fresh-cache check does not apply and the remote fetch
  succeeds, \<open>fetch_usage\<close> returns the new snapshot if the cache write succeeds. If the
  write raises, nothing is raised to the caller, and the result is the fallback: what
  the cache file holds after the failed write, or the empty mapping when that cannot be
  read.
\<close>

theorem fetched_snapshot_result:
  assumes "fresh_cache w = None" and "remote w = Inr data"
  shows "fst (fetch_usage w) =
           Inr (case write_failure w of
                  None \<Rightarrow> data
                | Some (e, c) \<Rightarrow>
                    (case c of
                       None \<Rightarrow> JObj []
                     | Some f \<Rightarrow> (case load f of Inl x \<Rightarrow> JObj [] | Inr v \<Rightarrow> v)))"
proof (cases "write_failure w")
  case None
  with assms show ?thesis
    by (simp add: fetch_usage_not_fresh fetch_api_written)
next
  case (Some ec)
  obtain e c where ec: "ec = (e, c)" by (cases ec)
  with Some assms show ?thesis
    by (simp add: fetch_usage_not_fresh fetch_api_write_fails stale_cache_def read_cache_def
        split: option.splits)
qed

theorem fetched_snapshot_result_witness:
  "fresh_cache world_online = None \<and> remote world_online = Inr snapshot_new
   \<and> fst (fetch_usage world_online) = Inr snapshot_new"
  using fetched_snapshot_result [of world_online snapshot_new]
  by (simp add: world_online_def fresh_cache_def remote_def read_token_def creds_ok_def
      CACHE_TTL_def)

section \<open>Properties of the rendering\<close>

lemma format_reset_total: "\<exists>s. format_reset h r = Inr s"
  by (simp add: format_reset_def split: sum.splits)

lemma format_util_zero: "format_util (JInt 0) = Inr ''0''"
  by (simp add: float_of_int_def f64_ratio_def str_eval)

lemma window_line_dict:
  assumes "kvs \<noteq> []"
  shows "window_line h label (JObj kvs) =
    (case format_reset h (case map_of kvs ''resets_at'' of None \<Rightarrow> JNull | Some r \<Rightarrow> r) of
       Inl x \<Rightarrow> Inl x
     | Inr reset_str \<Rightarrow>
         (case format_util (case map_of kvs ''utilization'' of None \<Rightarrow> JInt 0 | Some u \<Rightarrow> u) of
            Inl x \<Rightarrow> Inl x
          | Inr u \<Rightarrow> Inr (Some (label @ '': '' @ u @ ''%'' @ reset_str))))"
  using assms by (simp add: window_line_def split: option.splits sum.splits)

lemma format_f_zero_neg_exp:
  "format_f 0 (Finite False m (- int k)) =
     str_nat (if k = 0 then m else round_half_even m (2 ^ k))"
  by (cases "k = 0") (simp_all add: Let_def)

lemma rhe_tie:
  assumes "0 < b" and "2 * a = b * (2 * j + 1)"
  shows "even (round_half_even a b) \<and> (round_half_even a b = j \<or> round_half_even a b = j + 1)"
proof -
  have "even b"
  proof (rule ccontr)
    assume "odd b"
    then have "odd (b * (2 * j + 1))" by simp
    then show False using assms(2) by (metis even_mult_iff even_numeral)
  qed
  then obtain c where c: "b = 2 * c" by (elim evenE)
  with assms have a: "a = b * j + c" and cpos: "0 < c" by (simp_all add: algebra_simps)
  have cb: "c < b" using c cpos by simp
  have q: "a div b = j" and r: "a mod b = c" using cb assms(1) by (simp_all add: a)
  show ?thesis unfolding round_half_even_def Let_def q r using c by auto
qed


lemma map_of_filter_key:
  "map_of (filter (\<lambda>kv. fst kv \<noteq> a) xs) b = (if b = a then None else map_of xs b)"
  by (induction xs) auto

text \<open>
  Claim C8 as stated fails: a utilization of 72.5, exactly halfway between 72 and 73, is
  printed as \<open>72%\<close>, not rounded up to \<open>73%\<close>.
\<close>

theorem utilization_rounding_counterexample:
  "render host_example snapshot_half = Inr ''5h: 72%''
   \<and> render host_example snapshot_half \<noteq> Inr ''5h: 73%''"
  by (simp add: render_def window_line_def snapshot_half_def format_reset_def
      round_half_even_def Let_def str_eval)

lemma format_util_int:
  assumes "m < 2 ^ 53"
  shows "format_util (JInt (int m)) = Inr (str_nat m)"
proof (cases "m = 0")
  case True
  then show ?thesis by (simp add: format_util_zero str_eval del: format_util.simps)
next
  case False
  then have "0 < m" by simp
  from f64_ratio_normal [OF this, of 1] assms
  obtain s where f: "f64_ratio m 1 = (round_half_even (m * 2 ^ s) 1, - int s)"
    and hi: "m * 2 ^ s < 2 ^ 53" by auto
  have one: "round_half_even a 1 = a" for a by (simp add: round_half_even_def)
  have exact: "round_half_even (m * 2 ^ s) (2 ^ s) = m" by (simp add: round_half_even_def)
  have "(2::nat) ^ 53 \<le> 2 ^ 1024" by (intro power_increasing) simp_all
  with hi have small: "\<not> 2 ^ 1024 \<le> m * 2 ^ s" by simp
  have fm: "f64_ratio (nat \<bar>int m\<bar>) 1 = (m * 2 ^ s, - int s)"
    by (simp only: nat_int abs_of_nat f one)
  have "float_of_int (int m) = Inr (Finite False (m * 2 ^ s) (- int s))"
    unfolding float_of_int_def fm using small by (cases "s = 0") simp_all
  then show ?thesis
    by (simp add: format_f_zero_neg_exp exact del: format_f.simps)
qed

text \<open>
  Claim C8, amended. For a window with a utilization \<open>m / 2\<^sup>k\<close> (a non-negative float,
  or an int below \<open>2\<^sup>5\<^sup>3\<close> with \<open>k = 0\<close>), the line shows the integer \<open>r\<close> nearest to
  it; a value exactly halfway between two integers is shown as the even one of the two
  (the rounding of Python's \<open>.0f\<close> format), so it is rounded up only when the upper
  integer is even. 73.4 is shown as \<open>73\<close>.
\<close>

theorem utilization_rounding:
  assumes "kvs \<noteq> []"
    and "map_of kvs ''utilization'' = Some u"
    and "u = JFloat (Finite False m (- int k)) \<or> u = JInt (int m) \<and> k = 0 \<and> m < 2 ^ 53"
  shows "\<exists>r reset.
           window_line h label (JObj kvs) = Inr (Some (label @ '': '' @ str_nat r @ ''%'' @ reset))
           \<and> 2 ^ k * (2 * r) \<le> 2 * m + 2 ^ k \<and> 2 * m \<le> 2 ^ k * (2 * r) + 2 ^ k
           \<and> (\<forall>j. 2 * m = 2 ^ k * (2 * j + 1) \<longrightarrow> even r \<and> (r = j \<or> r = j + 1))
           \<and> format_util (JFloat (true_div 734 10)) = Inr ''73''"
proof -
  define r where "r = round_half_even m (2 ^ k)"
  obtain reset where reset: "format_reset h (case map_of kvs ''resets_at'' of None \<Rightarrow> JNull | Some r \<Rightarrow> r) = Inr reset"
    using format_reset_total by blast
  have one: "round_half_even m (Suc 0) = m" by (simp add: round_half_even_def)
  have fmt: "format_util u = Inr (str_nat r)"
    using assms(3)
  proof
    assume "u = JFloat (Finite False m (- int k))"
    then show ?thesis
      by (simp add: format_f_zero_neg_exp r_def one del: format_f.simps)
  next
    assume "u = JInt (int m) \<and> k = 0 \<and> m < 2 ^ 53"
    then show ?thesis
      by (simp add: format_util_int r_def one del: format_util.simps)
  qed
  have line: "window_line h label (JObj kvs) = Inr (Some (label @ '': '' @ str_nat r @ ''%'' @ reset))"
    by (simp add: window_line_dict [OF assms(1)] assms(2) reset fmt
        del: format_util.simps format_f.simps)
  have near: "2 ^ k * (2 * r) \<le> 2 * m + 2 ^ k \<and> 2 * m \<le> 2 ^ k * (2 * r) + 2 ^ k"
    using rhe_bounds [of "2 ^ k" m] by (simp add: r_def mult.assoc)
  have tie: "\<forall>j. 2 * m = 2 ^ k * (2 * j + 1) \<longrightarrow> even r \<and> (r = j \<or> r = j + 1)"
    using rhe_tie [of "2 ^ k" m] by (simp add: r_def)
  have ex: "format_util (JFloat (true_div 734 10)) = Inr ''73''"
    by (simp add: float_eval str_eval)
  from line near tie ex show ?thesis by blast
qed

theorem utilization_rounding_witness:
  "[(''utilization'', JFloat (Finite False 145 (- int 1)))] \<noteq> []
   \<and> map_of [(''utilization'', JFloat (Finite False 145 (- int 1)))] ''utilization'' =
       Some (JFloat (Finite False 145 (- int 1)))
   \<and> (\<exists>reset. window_line host_example ''5h''
         (JObj [(''utilization'', JFloat (Finite False 145 (- int 1)))]) =
       Inr (Some (''5h: 72%'' @ reset)))"
proof -
  from utilization_rounding [of "[(''utilization'', JFloat (Finite False 145 (- int 1)))]"
      "JFloat (Finite False 145 (- int 1))" 145 1 host_example "''5h''"]
  obtain r reset where
    line: "window_line host_example ''5h''
         (JObj [(''utilization'', JFloat (Finite False 145 (- int 1)))]) =
       Inr (Some (''5h'' @ '': '' @ str_nat r @ ''%'' @ reset))"
    and tie: "\<forall>j. 2 * 145 = 2 ^ 1 * (2 * j + 1) \<longrightarrow> even r \<and> (r = j \<or> r = j + 1)"
    by auto
  from tie [rule_format, of 72] have "r = 72" by auto
  with line show ?thesis by (simp add: str_eval)
qed


lemma render_dict:
  "render h (JObj usage) =
     (case window_line h ''5h'' (case map_of usage ''five_hour'' of None \<Rightarrow> JNull | Some v \<Rightarrow> v) of
        Inl x \<Rightarrow> Inl x
      | Inr p5 \<Rightarrow>
          (case window_line h ''7d''
                  (case map_of usage ''seven_day'' of None \<Rightarrow> JNull | Some v \<Rightarrow> v) of
             Inl x \<Rightarrow> Inl x
           | Inr p7 \<Rightarrow>
               Inr (join [CHR 0x0A] ((case p5 of None \<Rightarrow> [] | Some l \<Rightarrow> [l]) @
                                      (case p7 of None \<Rightarrow> [] | Some l \<Rightarrow> [l])))))"
  by (simp add: render_def split: option.splits sum.splits)

lemma main_render: "fst (fetch_usage w) = Inr usage \<Longrightarrow> main h w = render h usage"
  by (simp add: main_def)

lemma fetch_cached: "fst (fetch_usage (world_cached s)) = Inr s"
  by (simp add: fetch_usage_fresh fresh_cache_def world_cached_def CACHE_TTL_def)

lemma window_line_empty:
  "window_line h label JNull = Inr None" "window_line h label (JObj []) = Inr None"
  by (simp_all add: window_line_def)

lemma format_reset_soon: "format_reset host_example (JStr ''soon'') = Inr []"
  by (simp add: format_reset_def format_reset_body_def parse_reset_def host_example_def)

lemma format_reset_null: "format_reset h JNull = Inr []"
  by (simp add: format_reset_def)

lemma format_util_example: "format_util (JInt 42) = Inr ''42''" "format_util (JInt 7) = Inr ''7''"
  using format_util_int [of 42] format_util_int [of 7]
  by (simp_all add: str_eval del: format_util.simps)

text \<open>
  Claim C9 as stated fails: with a timestamp no parser accepts and \<open>"utilization": null\<close>
  in the same window, \<open>format_reset\<close> returns the empty string, but formatting the
  utilization raises \<open>TypeError\<close> out of \<open>main\<close> and no line is printed.
\<close>

theorem malformed_reset_counterexample:
  "format_reset host_example (JStr ''soon'') = Inr []
   \<and> fst (fetch_usage (world_cached snapshot_null_util)) = Inr snapshot_null_util
   \<and> render host_example snapshot_null_util = Inl TypeError
   \<and> main host_example (world_cached snapshot_null_util) = Inl TypeError"
  by (simp add: format_reset_soon fetch_cached main_render)
    (simp add: snapshot_null_util_def render_def window_line_def format_reset_soon)

text \<open>
  Claim C9, amended. \<open>format_reset\<close> raises nothing; it returns the empty string when
  the reset instant is absent (\<open>None\<close>, or any falsy value) and when any step of its
  \<open>try\<close> block raises, as a parser that rejects the timestamp does. Then, if the
  utilization of the window can be formatted (every float can, and every int below
  \<open>2\<^sup>5\<^sup>3\<close>) and the block of the other window raises nothing, \<open>main\<close> prints the line
  of the window as label, utilization and \<open>%\<close> with no annotation, beside the line of
  the other window if it has one.
\<close>

theorem malformed_reset_keeps_line:
  "(\<exists>s. format_reset h r = Inr s)
   \<and> (\<not> truthy r \<longrightarrow> format_reset h r = Inr [])
   \<and> (format_reset_body h r = Inl e \<longrightarrow> format_reset h r = Inr [])
   \<and> (fromisoformat h (str_replace ''Z'' ''+00:00'' s) = Inl e \<longrightarrow>
        format_reset h (JStr s) = Inr [])
   \<and> (fst (fetch_usage w) = Inr (JObj usage)
        \<and> map_of usage ''five_hour'' = Some (JObj kvs) \<and> kvs \<noteq> []
        \<and> format_reset h (case map_of kvs ''resets_at'' of None \<Rightarrow> JNull | Some r \<Rightarrow> r) = Inr []
        \<and> format_util (case map_of kvs ''utilization'' of None \<Rightarrow> JInt 0 | Some v \<Rightarrow> v) = Inr u
        \<and> window_line h ''7d'' (case map_of usage ''seven_day'' of None \<Rightarrow> JNull | Some v \<Rightarrow> v) =
            Inr p7
        \<longrightarrow> main h w =
              Inr (join [CHR 0x0A]
                    ((''5h: '' @ u @ ''%'') # (case p7 of None \<Rightarrow> [] | Some l \<Rightarrow> [l]))))
   \<and> (fst (fetch_usage w) = Inr (JObj usage)
        \<and> map_of usage ''seven_day'' = Some (JObj kvs) \<and> kvs \<noteq> []
        \<and> format_reset h (case map_of kvs ''resets_at'' of None \<Rightarrow> JNull | Some r \<Rightarrow> r) = Inr []
        \<and> format_util (case map_of kvs ''utilization'' of None \<Rightarrow> JInt 0 | Some v \<Rightarrow> v) = Inr u
        \<and> window_line h ''5h'' (case map_of usage ''five_hour'' of None \<Rightarrow> JNull | Some v \<Rightarrow> v) =
            Inr p5
        \<longrightarrow> main h w =
              Inr (join [CHR 0x0A]
                    ((case p5 of None \<Rightarrow> [] | Some l \<Rightarrow> [l]) @ [''7d: '' @ u @ ''%''])))
   \<and> format_util (JFloat f) = Inr (format_f 0 f)
   \<and> (n < 2 ^ 53 \<longrightarrow> format_util (JInt (int n)) = Inr (str_nat n))"
proof -
  have 1: "\<exists>s. format_reset h r = Inr s" by (rule format_reset_total)
  have 2: "\<not> truthy r \<longrightarrow> format_reset h r = Inr []" by (simp add: format_reset_def)
  have 3: "format_reset_body h r = Inl e \<longrightarrow> format_reset h r = Inr []"
    by (simp add: format_reset_def)
  have 4: "fromisoformat h (str_replace ''Z'' ''+00:00'' s) = Inl e \<longrightarrow>
        format_reset h (JStr s) = Inr []"
    by (simp add: format_reset_def format_reset_body_def parse_reset_def)
  have line: "window_line h label (JObj kvs) = Inr (Some (label @ '': '' @ u @ ''%''))"
    if "kvs \<noteq> []"
      and "format_reset h (case map_of kvs ''resets_at'' of None \<Rightarrow> JNull | Some r \<Rightarrow> r) = Inr []"
      and "format_util (case map_of kvs ''utilization'' of None \<Rightarrow> JInt 0 | Some v \<Rightarrow> v) = Inr u"
    for label
    using that by (simp add: window_line_dict del: format_util.simps)
  have 5: "fst (fetch_usage w) = Inr (JObj usage)
        \<and> map_of usage ''five_hour'' = Some (JObj kvs) \<and> kvs \<noteq> []
        \<and> format_reset h (case map_of kvs ''resets_at'' of None \<Rightarrow> JNull | Some r \<Rightarrow> r) = Inr []
        \<and> format_util (case map_of kvs ''utilization'' of None \<Rightarrow> JInt 0 | Some v \<Rightarrow> v) = Inr u
        \<and> window_line h ''7d'' (case map_of usage ''seven_day'' of None \<Rightarrow> JNull | Some v \<Rightarrow> v) =
            Inr p7
        \<longrightarrow> main h w =
              Inr (join [CHR 0x0A]
                    ((''5h: '' @ u @ ''%'') # (case p7 of None \<Rightarrow> [] | Some l \<Rightarrow> [l])))"
    by (auto simp: main_render render_dict line simp del: format_util.simps)
  have 6: "fst (fetch_usage w) = Inr (JObj usage)
        \<and> map_of usage ''seven_day'' = Some (JObj kvs) \<and> kvs \<noteq> []
        \<and> format_reset h (case map_of kvs ''resets_at'' of None \<Rightarrow> JNull | Some r \<Rightarrow> r) = Inr []
        \<and> format_util (case map_of kvs ''utilization'' of None \<Rightarrow> JInt 0 | Some v \<Rightarrow> v) = Inr u
        \<and> window_line h ''5h'' (case map_of usage ''five_hour'' of None \<Rightarrow> JNull | Some v \<Rightarrow> v) =
            Inr p5
        \<longrightarrow> main h w =
              Inr (join [CHR 0x0A]
                    ((case p5 of None \<Rightarrow> [] | Some l \<Rightarrow> [l]) @ [''7d: '' @ u @ ''%'']))"
    by (auto simp: main_render render_dict line simp del: format_util.simps)
  have 7: "format_util (JFloat f) = Inr (format_f 0 f)" by simp
  have 8: "n < 2 ^ 53 \<longrightarrow> format_util (JInt (int n)) = Inr (str_nat n)"
    by (simp add: format_util_int del: format_util.simps)
  from 1 2 3 4 5 6 7 8 show ?thesis by (intro conjI) assumption+
qed


theorem malformed_reset_keeps_line_witness:
  "fromisoformat host_example (str_replace ''Z'' ''+00:00'' ''soon'') = Inl ValueError
   \<and> format_reset host_example (JStr ''soon'') = Inr []
   \<and> fst (fetch_usage (world_cached snapshot_soon)) = Inr snapshot_soon
   \<and> window_line host_example ''7d'' (JObj [(''utilization'', JInt 7)]) = Inr (Some ''7d: 7%'')
   \<and> main host_example (world_cached snapshot_soon) = Inr (''5h: 42%'' @ [CHR 0x0A] @ ''7d: 7%'')"
proof -
  have p: "fromisoformat host_example (str_replace ''Z'' ''+00:00'' ''soon'') = Inl ValueError"
    by (simp add: host_example_def)
  have w7: "window_line host_example ''7d'' (JObj [(''utilization'', JInt 7)]) =
      Inr (Some ''7d: 7%'')"
    by (simp add: window_line_def format_reset_def format_util_example del: format_util.simps)
  note m = malformed_reset_keeps_line [of host_example "JStr ''soon''" ValueError "''soon''"
      "world_cached snapshot_soon"
      "[(''five_hour'', JObj [(''utilization'', JInt 42), (''resets_at'', JStr ''soon'')]),
        (''seven_day'', JObj [(''utilization'', JInt 7)])]"
      "[(''utilization'', JInt 42), (''resets_at'', JStr ''soon'')]" "''42''"
      "Some ''7d: 7%''"]
  from m p have r: "format_reset host_example (JStr ''soon'') = Inr []" by blast
  have f: "fst (fetch_usage (world_cached snapshot_soon)) = Inr snapshot_soon"
    by (rule fetch_cached)
  from m have "main host_example (world_cached snapshot_soon) =
      Inr (''5h: 42%'' @ [CHR 0x0A] @ ''7d: 7%'')"
    using r w7 f by (simp add: snapshot_soon_def format_util_example del: format_util.simps)
  with p r f w7 show ?thesis by (intro conjI) assumption+
qed

text \<open>
  Claim C10 as stated fails: beside a window with \<open>"utilization": null\<close>, a non-empty
  window without the \<open>utilization\<close> field gets no line, since formatting the other
  window raises \<open>TypeError\<close> out of \<open>main\<close> before anything is printed.
\<close>

theorem missing_utilization_counterexample:
  "map_of [(''resets_at'', JStr ''soon'')] ''utilization'' = None
   \<and> fst (fetch_usage (world_cached snapshot_bare_null)) = Inr snapshot_bare_null
   \<and> render host_example snapshot_bare_null = Inl TypeError
   \<and> main host_example (world_cached snapshot_bare_null) = Inl TypeError"
proof -
  have 5: "window_line host_example ''5h'' (JObj [(''resets_at'', JStr ''soon'')]) =
      Inr (Some ''5h: 0%'')"
    by (simp add: window_line_dict format_reset_soon format_util_zero del: format_util.simps)
  have 7: "window_line host_example ''7d'' (JObj [(''utilization'', JNull)]) = Inl TypeError"
    by (simp add: window_line_dict format_reset_null)
  have r: "render host_example snapshot_bare_null = Inl TypeError"
    by (simp add: snapshot_bare_null_def render_dict 5 7)
  then show ?thesis by (simp add: fetch_cached main_render)
qed

text \<open>
  Claim C10, amended. When the block of the other window raises nothing, a window that is
  a non-empty object without the \<open>utilization\<close> field gives the line
  \<open><label>: 0%\<close> followed by its reset annotation, printed by \<open>main\<close> beside the line
  of the other window if it has one. A window that is absent, null or the empty object
  gives no line: \<open>main\<close> prints the line of the other window alone, and \<open>render\<close>
  gives the same result as for the snapshot without the key.
\<close>

theorem window_without_utilization:
  "(fst (fetch_usage w) = Inr (JObj usage)
      \<and> map_of usage ''five_hour'' = Some (JObj kvs) \<and> kvs \<noteq> []
      \<and> map_of kvs ''utilization'' = None
      \<and> window_line h ''7d'' (case map_of usage ''seven_day'' of None \<Rightarrow> JNull | Some v \<Rightarrow> v) =
          Inr p7
      \<longrightarrow> (\<exists>reset. format_reset h (case map_of kvs ''resets_at'' of None \<Rightarrow> JNull | Some r \<Rightarrow> r) =
                    Inr reset
                 \<and> main h w =
                     Inr (join [CHR 0x0A]
                           ((''5h: 0%'' @ reset) # (case p7 of None \<Rightarrow> [] | Some l \<Rightarrow> [l])))))
   \<and> (fst (fetch_usage w) = Inr (JObj usage)
      \<and> map_of usage ''seven_day'' = Some (JObj kvs) \<and> kvs \<noteq> []
      \<and> map_of kvs ''utilization'' = None
      \<and> window_line h ''5h'' (case map_of usage ''five_hour'' of None \<Rightarrow> JNull | Some v \<Rightarrow> v) =
          Inr p5
      \<longrightarrow> (\<exists>reset. format_reset h (case map_of kvs ''resets_at'' of None \<Rightarrow> JNull | Some r \<Rightarrow> r) =
                    Inr reset
                 \<and> main h w =
                     Inr (join [CHR 0x0A]
                           ((case p5 of None \<Rightarrow> [] | Some l \<Rightarrow> [l]) @ [''7d: 0%'' @ reset]))))
   \<and> (fst (fetch_usage w) = Inr (JObj usage)
      \<and> (map_of usage ''five_hour'' = None \<or> map_of usage ''five_hour'' = Some JNull
           \<or> map_of usage ''five_hour'' = Some (JObj []))
      \<and> window_line h ''7d'' (case map_of usage ''seven_day'' of None \<Rightarrow> JNull | Some v \<Rightarrow> v) =
          Inr p7
      \<longrightarrow> main h w = Inr (join [CHR 0x0A] (case p7 of None \<Rightarrow> [] | Some l \<Rightarrow> [l])))
   \<and> (fst (fetch_usage w) = Inr (JObj usage)
      \<and> (map_of usage ''seven_day'' = None \<or> map_of usage ''seven_day'' = Some JNull
           \<or> map_of usage ''seven_day'' = Some (JObj []))
      \<and> window_line h ''5h'' (case map_of usage ''five_hour'' of None \<Rightarrow> JNull | Some v \<Rightarrow> v) =
          Inr p5
      \<longrightarrow> main h w = Inr (join [CHR 0x0A] (case p5 of None \<Rightarrow> [] | Some l \<Rightarrow> [l])))
   \<and> (map_of usage ''five_hour'' = Some JNull \<or> map_of usage ''five_hour'' = Some (JObj []) \<longrightarrow>
        render h (JObj usage) = render h (JObj (filter (\<lambda>kv. fst kv \<noteq> ''five_hour'') usage)))
   \<and> (map_of usage ''seven_day'' = Some JNull \<or> map_of usage ''seven_day'' = Some (JObj []) \<longrightarrow>
        render h (JObj usage) = render h (JObj (filter (\<lambda>kv. fst kv \<noteq> ''seven_day'') usage)))"
proof -
  have line: "\<exists>reset. format_reset h (case map_of kvs ''resets_at'' of None \<Rightarrow> JNull | Some r \<Rightarrow> r) =
                 Inr reset
               \<and> window_line h label (JObj kvs) = Inr (Some (label @ '': 0%'' @ reset))"
    if "kvs \<noteq> []" and "map_of kvs ''utilization'' = None" for label
  proof -
    obtain reset where "format_reset h (case map_of kvs ''resets_at'' of None \<Rightarrow> JNull | Some r \<Rightarrow> r) = Inr reset"
      using format_reset_total by blast
    then show ?thesis
      by (simp add: window_line_dict [OF that(1)] that(2) format_util_zero
          del: format_util.simps)
  qed
  have 1: "fst (fetch_usage w) = Inr (JObj usage)
      \<and> map_of usage ''five_hour'' = Some (JObj kvs) \<and> kvs \<noteq> []
      \<and> map_of kvs ''utilization'' = None
      \<and> window_line h ''7d'' (case map_of usage ''seven_day'' of None \<Rightarrow> JNull | Some v \<Rightarrow> v) =
          Inr p7
      \<longrightarrow> (\<exists>reset. format_reset h (case map_of kvs ''resets_at'' of None \<Rightarrow> JNull | Some r \<Rightarrow> r) =
                    Inr reset
                 \<and> main h w =
                     Inr (join [CHR 0x0A]
                           ((''5h: 0%'' @ reset) # (case p7 of None \<Rightarrow> [] | Some l \<Rightarrow> [l]))))"
  proof (intro impI, elim conjE)
    assume a: "fst (fetch_usage w) = Inr (JObj usage)"
      "map_of usage ''five_hour'' = Some (JObj kvs)" "kvs \<noteq> []"
      "map_of kvs ''utilization'' = None"
      "window_line h ''7d'' (case map_of usage ''seven_day'' of None \<Rightarrow> JNull | Some v \<Rightarrow> v) =
          Inr p7"
    from line [OF a(3,4), of "''5h''"] obtain reset
      where "format_reset h (case map_of kvs ''resets_at'' of None \<Rightarrow> JNull | Some r \<Rightarrow> r) =
                 Inr reset"
        and "window_line h ''5h'' (JObj kvs) = Inr (Some (''5h'' @ '': 0%'' @ reset))" by blast
    with a show "\<exists>reset. format_reset h (case map_of kvs ''resets_at'' of None \<Rightarrow> JNull | Some r \<Rightarrow> r) =
                    Inr reset
                 \<and> main h w =
                     Inr (join [CHR 0x0A]
                           ((''5h: 0%'' @ reset) # (case p7 of None \<Rightarrow> [] | Some l \<Rightarrow> [l])))"
      by (simp add: main_render render_dict)
  qed
  have 2: "fst (fetch_usage w) = Inr (JObj usage)
      \<and> map_of usage ''seven_day'' = Some (JObj kvs) \<and> kvs \<noteq> []
      \<and> map_of kvs ''utilization'' = None
      \<and> window_line h ''5h'' (case map_of usage ''five_hour'' of None \<Rightarrow> JNull | Some v \<Rightarrow> v) =
          Inr p5
      \<longrightarrow> (\<exists>reset. format_reset h (case map_of kvs ''resets_at'' of None \<Rightarrow> JNull | Some r \<Rightarrow> r) =
                    Inr reset
                 \<and> main h w =
                     Inr (join [CHR 0x0A]
                           ((case p5 of None \<Rightarrow> [] | Some l \<Rightarrow> [l]) @ [''7d: 0%'' @ reset])))"
  proof (intro impI, elim conjE)
    assume a: "fst (fetch_usage w) = Inr (JObj usage)"
      "map_of usage ''seven_day'' = Some (JObj kvs)" "kvs \<noteq> []"
      "map_of kvs ''utilization'' = None"
      "window_line h ''5h'' (case map_of usage ''five_hour'' of None \<Rightarrow> JNull | Some v \<Rightarrow> v) =
          Inr p5"
    from line [OF a(3,4), of "''7d''"] obtain reset
      where "format_reset h (case map_of kvs ''resets_at'' of None \<Rightarrow> JNull | Some r \<Rightarrow> r) =
                 Inr reset"
        and "window_line h ''7d'' (JObj kvs) = Inr (Some (''7d'' @ '': 0%'' @ reset))" by blast
    with a show "\<exists>reset. format_reset h (case map_of kvs ''resets_at'' of None \<Rightarrow> JNull | Some r \<Rightarrow> r) =
                    Inr reset
                 \<and> main h w =
                     Inr (join [CHR 0x0A]
                           ((case p5 of None \<Rightarrow> [] | Some l \<Rightarrow> [l]) @ [''7d: 0%'' @ reset]))"
      by (simp add: main_render render_dict)
  qed
  have 3: "fst (fetch_usage w) = Inr (JObj usage)
      \<and> (map_of usage ''five_hour'' = None \<or> map_of usage ''five_hour'' = Some JNull
           \<or> map_of usage ''five_hour'' = Some (JObj []))
      \<and> window_line h ''7d'' (case map_of usage ''seven_day'' of None \<Rightarrow> JNull | Some v \<Rightarrow> v) =
          Inr p7
      \<longrightarrow> main h w = Inr (join [CHR 0x0A] (case p7 of None \<Rightarrow> [] | Some l \<Rightarrow> [l]))"
    by (auto simp: main_render render_dict window_line_empty)
  have 4: "fst (fetch_usage w) = Inr (JObj usage)
      \<and> (map_of usage ''seven_day'' = None \<or> map_of usage ''seven_day'' = Some JNull
           \<or> map_of usage ''seven_day'' = Some (JObj []))
      \<and> window_line h ''5h'' (case map_of usage ''five_hour'' of None \<Rightarrow> JNull | Some v \<Rightarrow> v) =
          Inr p5
      \<longrightarrow> main h w = Inr (join [CHR 0x0A] (case p5 of None \<Rightarrow> [] | Some l \<Rightarrow> [l]))"
    by (auto simp: main_render render_dict window_line_empty)
  have 5: "map_of usage ''five_hour'' = Some JNull \<or> map_of usage ''five_hour'' = Some (JObj []) \<longrightarrow>
        render h (JObj usage) = render h (JObj (filter (\<lambda>kv. fst kv \<noteq> ''five_hour'') usage))"
    by (auto simp: render_dict map_of_filter_key window_line_empty
        split: option.splits sum.splits)
  have 6: "map_of usage ''seven_day'' = Some JNull \<or> map_of usage ''seven_day'' = Some (JObj []) \<longrightarrow>
        render h (JObj usage) = render h (JObj (filter (\<lambda>kv. fst kv \<noteq> ''seven_day'') usage))"
    by (auto simp: render_dict map_of_filter_key window_line_empty
        split: option.splits sum.splits)
  from 1 2 3 4 5 6 show ?thesis by (intro conjI) assumption+
qed


theorem window_without_utilization_witness:
  "fst (fetch_usage (world_cached snapshot_bare)) = Inr snapshot_bare
   \<and> map_of [(''resets_at'', JStr ''soon'')] ''utilization'' = None
   \<and> window_line host_example ''7d'' (JObj [(''resets_at'', JStr ''soon'')]) =
       Inr (Some ''7d: 0%'')
   \<and> main host_example (world_cached snapshot_bare) = Inr (''5h: 0%'' @ [CHR 0x0A] @ ''7d: 0%'')
   \<and> main host_example (world_cached snapshot_null_window) = Inr ''7d: 0%''"
proof -
  have w7: "window_line host_example ''7d'' (JObj [(''resets_at'', JStr ''soon'')]) =
      Inr (Some ''7d: 0%'')"
    by (simp add: window_line_dict format_reset_soon format_util_zero del: format_util.simps)
  have f: "fst (fetch_usage (world_cached snapshot_bare)) = Inr snapshot_bare"
    "fst (fetch_usage (world_cached snapshot_null_window)) = Inr snapshot_null_window"
    by (rule fetch_cached)+
  from window_without_utilization
    [where w = "world_cached snapshot_bare" and h = host_example
      and usage = "[(''five_hour'', JObj [(''resets_at'', JStr ''soon'')]),
                    (''seven_day'', JObj [(''resets_at'', JStr ''soon'')])]"
      and kvs = "[(''resets_at'', JStr ''soon'')]" and ?p7.0 = "Some ''7d: 0%''"]
  obtain reset where "format_reset host_example (JStr ''soon'') = Inr reset"
    and "main host_example (world_cached snapshot_bare) =
      Inr (join [CHR 0x0A] [''5h: 0%'' @ reset, ''7d: 0%''])"
    using f(1) w7 by (auto simp: snapshot_bare_def)
  then have a: "main host_example (world_cached snapshot_bare) =
      Inr (''5h: 0%'' @ [CHR 0x0A] @ ''7d: 0%'')"
    by (simp add: format_reset_soon)
  from window_without_utilization
    [where w = "world_cached snapshot_null_window" and h = host_example
      and usage = "[(''five_hour'', JNull),
                    (''seven_day'', JObj [(''resets_at'', JStr ''soon'')])]"
      and ?p7.0 = "Some ''7d: 0%''"]
  have b: "main host_example (world_cached snapshot_null_window) = Inr ''7d: 0%''"
    using f(2) w7 by (simp add: snapshot_null_window_def)
  from f(1) w7 a b show ?thesis by simp
qed

section \<open>Properties of format\_reset\<close>

lemma lower_unchanged:
  assumes "set s \<subseteq> set ''0123456789:''"
  shows "lower s = s"
proof -
  have "lower_char c = c" if "c \<in> set ''0123456789:''" for c
  proof -
    from that consider "c = CHR ''0''" | "c = CHR ''1''" | "c = CHR ''2''" | "c = CHR ''3''"
      | "c = CHR ''4''" | "c = CHR ''5''" | "c = CHR ''6''" | "c = CHR ''7''" | "c = CHR ''8''"
      | "c = CHR ''9''" | "c = CHR '':''"
      by auto
    then show ?thesis by cases (simp_all add: lower_char_def)
  qed
  with assms show ?thesis unfolding lower_def by (intro map_idI) auto
qed

lemma two_digits:
  assumes "m < 60"
  shows "zfill 2 (str_nat m) = [digit_char (m div 10), digit_char (m mod 10)]"
proof (cases "m < 10")
  case True
  then show ?thesis by (simp add: str_nat_small zfill_def digit_char_def)
next
  case False
  with assms have "m div 10 < 10" by simp
  with False show ?thesis
    by (subst str_nat.simps) (simp add: str_nat_small zfill_def)
qed

lemma str_nat_no_leading_zero: "0 < n \<Longrightarrow> hd (str_nat n) \<noteq> CHR ''0''"
proof (induction n rule: str_nat.induct)
  case (1 n)
  show ?case
  proof (cases "n < 10")
    case True
    with 1(2) show ?thesis by (simp add: str_nat_small digit_char_zero)
  next
    case False
    then have "0 < n div 10" by simp
    from 1(1) [OF False this] False show ?thesis
      by (subst str_nat.simps) (simp add: str_nat_not_empty)
  qed
qed

lemma minute_of_less: "minute_of t < 60"
proof -
  have "t mod HOUR < HOUR" by (simp add: HOUR_def)
  then have "(t mod HOUR) div MINUTE < 60" by (simp add: HOUR_def MINUTE_def)
  moreover have "0 \<le> (t mod HOUR) div MINUTE" by (simp add: HOUR_def MINUTE_def pos_imp_zdiv_nonneg_iff)
  ultimately show ?thesis by (simp add: minute_of_def)
qed

lemma hour_of_less: "hour_of t < 24"
proof -
  have "t mod DAY < DAY" by (simp add: DAY_def)
  then have "(t mod DAY) div HOUR < 24" by (simp add: HOUR_def DAY_def)
  moreover have "0 \<le> (t mod DAY) div HOUR" by (simp add: HOUR_def DAY_def pos_imp_zdiv_nonneg_iff)
  ultimately show ?thesis by (simp add: hour_of_def)
qed

lemma suffix_same_length:
  assumes "length xs = length zs"
  shows "suffix xs (ys @ zs) \<longleftrightarrow> xs = zs"
  using assms by (auto simp: suffix_def)

lemma clock_text_eq:
  "clock_text dt =
     str_nat (if hour_of dt mod 12 = 0 then 12 else hour_of dt mod 12) @
     (if minute_of dt = 0 then []
      else [CHR '':'', digit_char (minute_of dt div 10), digit_char (minute_of dt mod 10)]) @
     (if hour_of dt < 12 then ''am'' else ''pm'')"
proof -
  define H where "H = str_nat (if hour_of dt mod 12 = 0 then 12 else hour_of dt mod 12)"
  define d1 d2 where "d1 = digit_char (minute_of dt div 10)" and "d2 = digit_char (minute_of dt mod 10)"
  define ap where "ap = (if hour_of dt < 12 then ''am'' else ''pm'')"
  have m60: "minute_of dt < 60" by (rule minute_of_less)
  then have m10: "minute_of dt div 10 < 10" "minute_of dt mod 10 < 10" by simp_all
  have Hdig: "set H \<subseteq> set ''0123456789''" unfolding H_def by (rule str_nat_digits)
  have ddig: "d1 \<in> set ''0123456789''" "d2 \<in> set ''0123456789''"
    unfolding d1_def d2_def using m10 by (simp_all only: digit_char_digit)
  have "set (H @ '':'' @ [d1, d2]) \<subseteq> set ''0123456789:''"
  proof -
    have "set (H @ '':'' @ [d1, d2]) = set H \<union> {CHR '':'', d1, d2}" by simp
    moreover have "CHR '':'' \<in> set ''0123456789:''" by simp
    moreover have "set ''0123456789'' \<subseteq> set ''0123456789:''" by auto
    ultimately show ?thesis using Hdig ddig by blast
  qed
  then have low: "lower (H @ [CHR '':'', d1, d2]) = H @ [CHR '':'', d1, d2]"
    using lower_unchanged [of "H @ '':'' @ [d1, d2]"] by simp
  have lap: "lower (if hour_of dt < 12 then ''AM'' else ''PM'') = ap"
    by (simp add: lower_def lower_char_def ap_def)
  have "strftime_clock dt = (H @ '':'' @ [d1, d2]) @ (if hour_of dt < 12 then ''AM'' else ''PM'')"
    by (simp add: strftime_clock_def Let_def two_digits [OF m60] H_def d1_def d2_def)
  then have "lower (strftime_clock dt) = lower (H @ '':'' @ [d1, d2]) @ ap"
    by (simp only: lower_def map_append flip: lap [unfolded lower_def])
  then have h: "lower (strftime_clock dt) = H @ [CHR '':'', d1, d2] @ ap"
    by (simp add: low)
  have zero: "d1 = CHR ''0'' \<and> d2 = CHR ''0'' \<longleftrightarrow> minute_of dt = 0"
    using m10 by (auto simp: d1_def d2_def digit_char_zero)
  have suf: "(suffix '':00am'' (H @ [CHR '':'', d1, d2] @ ap) \<or>
              suffix '':00pm'' (H @ [CHR '':'', d1, d2] @ ap)) \<longleftrightarrow> minute_of dt = 0"
    using zero by (auto simp: suffix_same_length ap_def)
  have nocolon: "CHR '':'' \<notin> set H" using Hdig by auto
  have rep: "str_replace '':00'' [] (H @ '':00'' @ ap) = H @ ap"
    using str_replace_skip [of "'':00''" "CHR '':''" "''00''" H "[]" "'':00'' @ ap", OF _ nocolon]
    by (auto simp: ap_def)
  show ?thesis
  proof (cases "minute_of dt = 0")
    case True
    with zero have "d1 = CHR ''0''" "d2 = CHR ''0''" by simp_all
    with True rep suf show ?thesis
      unfolding clock_text_def Let_def h by (simp add: H_def ap_def)
  next
    case False
    with suf show ?thesis
      unfolding clock_text_def Let_def h by (simp add: H_def ap_def d1_def d2_def)
  qed
qed

lemma same_day_less:
  assumes "dt div DAY = now div DAY"
  shows "dt - now < DAY"
proof -
  have 1: "dt = DAY * (now div DAY) + dt mod DAY"
    using mult_div_mod_eq [of DAY dt] by (simp add: assms)
  have 2: "now = DAY * (now div DAY) + now mod DAY" by simp
  have 3: "dt mod DAY < DAY" "0 \<le> now mod DAY" by (simp_all add: DAY_def)
  from 1 2 3 show ?thesis by linarith
qed

lemma checked_Inr: "checked t = Inr t' \<longleftrightarrow> t' = t \<and> 0 \<le> t \<and> t < MAXORDINAL * DAY"
  by (auto simp: checked_def)

lemma parse_reset_range:
  assumes "parse_reset h r = Inr dt"
  shows "0 \<le> dt \<and> dt < MAXORDINAL * DAY"
  using assms
  by (auto simp: parse_reset_def astimezone_CST_def checked_Inr
      split: json.splits sum.splits option.splits)

lemma now_CST_range:
  assumes "now_CST h = Inr now"
  shows "0 \<le> now \<and> now < MAXORDINAL * DAY"
  using assms by (auto simp: now_CST_def checked_Inr)

lemma format_duration_total: "\<exists>s. format_duration d = Inr s"
proof -
  obtain i where "py_int (total_seconds d) = Inr i"
    using py_int_total_seconds [of d] by blast
  then show ?thesis by (simp add: format_duration_def Let_def)
qed

lemma ord2ymd_bounds:
  assumes "ord2ymd n = (y, m, d)"
  shows "1 \<le> m \<and> m \<le> 12 \<and> 1 \<le> d"
proof -
  define a where "a = n - 1"
  define n400 where "n400 = a div 146097"
  define r400 where "r400 = a mod 146097"
  define n100 where "n100 = r400 div 36524"
  define r100 where "r100 = r400 mod 36524"
  define n4 where "n4 = r100 div 1461"
  define r4 where "r4 = r100 mod 1461"
  define n1 where "n1 = r4 div 365"
  define r1 where "r1 = r4 mod 365"
  define year where "year = n400 * 400 + 1 + n100 * 100 + n4 * 4 + n1"
  define leapyear where "leapyear \<longleftrightarrow> n1 = 3 \<and> (n4 \<noteq> 24 \<or> n100 = 3)"
  define month where "month = (r1 + 50) div 32"
  define preceding
    where "preceding = DAYS_BEFORE_MONTH ! month + (if 2 < month \<and> leapyear then 1 else 0)"
  define preceding'
    where "preceding' = preceding -
             (DAYS_IN_MONTH ! (month - 1) + (if month - 1 = 2 \<and> leapyear then 1 else 0))"
  have eq: "ord2ymd n =
      (if n1 = 4 \<or> n100 = 4 then (year - 1, 12, 31)
       else if r1 < preceding then (year, month - 1, r1 - preceding' + 1)
       else (year, month, r1 - preceding + 1))"
    unfolding ord2ymd_def Let_def preceding'_def preceding_def month_def leapyear_def year_def
      r1_def n1_def r4_def n4_def r100_def n100_def r400_def n400_def a_def
    by (rule refl)
  have "r1 < 365" by (simp add: r1_def)
  then have month: "1 \<le> month" "month \<le> 12" by (simp_all add: month_def)
  have first: "month \<noteq> 1" if "r1 < preceding"
  proof
    assume "month = 1"
    then have "preceding = 0" by (simp add: preceding_def DAYS_BEFORE_MONTH_def)
    with that show False by simp
  qed
  from assms [unfolded eq] month first show ?thesis
    by (auto split: if_splits)
qed

lemma reset_text_eq:
  assumes "0 \<le> now" and "now + DAY < MAXORDINAL * DAY" and "0 \<le> dt"
    and "dt < MAXORDINAL * DAY"
  shows "reset_text dt now =
     (case (if now < dt then format_duration (dt - now) else Inr ''now'') of
        Inl x \<Rightarrow> Inl x
      | Inr dur \<Rightarrow>
          Inr ('' ('' @ dur @ '' - '' @
               (if dt div DAY = now div DAY then clock_text dt
                else if dt div DAY = now div DAY + 1
                then (if dt - now \<le> DAY then ''tmrw '' @ clock_text dt else ''tmrw'')
                else (if dt - now \<le> DAY then strftime_date dt @ '' '' @ clock_text dt
                      else strftime_date dt)) @ '')''))"
proof -
  define delta where "delta = (if now < dt then dt - now else 0)"
  have "0 \<le> delta" by (simp add: delta_def)
  moreover have "delta < 2 ^ 53 * 1000000"
    using assms by (simp add: delta_def MAXORDINAL_def DAY_def)
  ultimately have "float_le_nat (total_seconds delta) 86400 \<longleftrightarrow> delta \<le> 86400000000"
    by (rule show_time_iff)
  also have "\<dots> \<longleftrightarrow> dt - now \<le> DAY" by (simp add: delta_def DAY_def)
  finally have st: "float_le_nat (total_seconds (if now < dt then dt - now else 0)) 86400
      \<longleftrightarrow> dt - now \<le> DAY"
    unfolding delta_def .
  have ck: "checked (now + DAY) = Inr (now + DAY)"
    using assms by (simp add: checked_def DAY_def)
  have nx: "(now + DAY) div DAY = now div DAY + 1" by (simp add: DAY_def)
  have X: "(if now < dt then format_duration (if now < dt then dt - now else 0) else Inr ''now'')
      = (if now < dt then format_duration (dt - now) else Inr ''now'')"
    by simp
  show ?thesis
  proof (cases "if now < dt then format_duration (dt - now) else Inr ''now''")
    case (Inl x)
    then show ?thesis
      unfolding reset_text_def Let_def X by (simp only: sum.case)
  next
    case (Inr dur)
    show ?thesis
      unfolding reset_text_def Let_def X st ck nx Inr sum.case
      by (simp only: if_distrib [of Inr] if_distrib [of "\<lambda>x. x @ '')''"]
          if_distrib [of "\<lambda>x. '' ('' @ dur @ '' - '' @ x"] append_assoc)
        (simp cong: if_cong)
  qed
qed

lemma format_reset_parsed:
  assumes "truthy r" and "parse_reset h r = Inr dt" and "now_CST h = Inr now"
  shows "format_reset h r = (case reset_text dt now of Inl x \<Rightarrow> Inr [] | Inr s \<Rightarrow> Inr s)"
  using assms by (simp add: format_reset_def format_reset_body_def)

text \<open>The example host evaluated.\<close>

lemmas time_eval = DAY_def HOUR_def MINUTE_def MAXORDINAL_def CST_def checked_def
  hour_of_def minute_of_def toordinal_def

lemma parse_example:
  "parse_reset host_example (JStr ''2025-01-16T10:00:00Z'') = Inr 63872596800000000"
  "parse_reset host_example (JStr ''2025-01-16T04:15:00Z'') = Inr 63872576100000000"
  "parse_reset host_example (JStr ''2025-01-21T00:00:00Z'') = Inr 63872992800000000"
  by (simp_all add: parse_reset_def host_example_def astimezone_CST_def time_eval)

lemma now_example:
  "now_CST host_example = Inr 63872573400000000"
  "now_CST host_later = Inr 63872604000000000"
  by (simp_all add: now_CST_def host_example_def host_later_def time_eval)

text \<open>
  Claim C6. For a reset instant \<open>dt\<close> that parses and a current instant \<open>now\<close>, both
  in CST and \<open>now\<close> before the last day a \<open>datetime\<close> can hold, the annotation is
  \<open> (<duration> - <frame>)\<close>. On the date of \<open>now\<close> the frame is the clock; on the next
  date it is \<open>tmrw <clock>\<close> or \<open>tmrw\<close>; on any other date it is
  \<open><month>/<day> <clock>\<close> or \<open><month>/<day>\<close>, month and day without leading zeros.
  The clock is there exactly when \<open>dt - now\<close> is at most 24 hours: on the date of
  \<open>now\<close>, where the source prints it without a test, the difference is below 24
  hours.
\<close>

theorem format_reset_framing:
  assumes "truthy r" and "parse_reset h r = Inr dt" and "now_CST h = Inr now"
    and "now + DAY < MAXORDINAL * DAY"
  shows "\<exists>dur y m d.
           (if now < dt then format_duration (dt - now) = Inr dur else dur = ''now'')
           \<and> ord2ymd (toordinal dt) = (y, m, d) \<and> 1 \<le> m \<and> m \<le> 12 \<and> 1 \<le> d
           \<and> hd (str_nat m) \<noteq> CHR ''0'' \<and> hd (str_nat d) \<noteq> CHR ''0''
           \<and> format_reset h r =
               Inr ('' ('' @ dur @ '' - '' @
                    (if dt div DAY = now div DAY then clock_text dt
                     else if dt div DAY = now div DAY + 1
                     then (if dt - now \<le> DAY then ''tmrw '' @ clock_text dt else ''tmrw'')
                     else (if dt - now \<le> DAY
                           then str_nat m @ ''/'' @ str_nat d @ '' '' @ clock_text dt
                           else str_nat m @ ''/'' @ str_nat d)) @ '')'')
           \<and> (dt div DAY = now div DAY \<longrightarrow> dt - now \<le> DAY)"
proof -
  from parse_reset_range [OF assms(2)] have dt: "0 \<le> dt" "dt < MAXORDINAL * DAY" by simp_all
  from now_CST_range [OF assms(3)] have now: "0 \<le> now" by simp
  obtain dur where dur: "(if now < dt then format_duration (dt - now) else Inr ''now'') = Inr dur"
    using format_duration_total [of "dt - now"] by (cases "now < dt") auto
  obtain y m d where ymd: "ord2ymd (toordinal dt) = (y, m, d)"
    by (cases "ord2ymd (toordinal dt)")
  from ord2ymd_bounds [OF ymd] have b: "1 \<le> m" "m \<le> 12" "1 \<le> d" by simp_all
  then have z: "hd (str_nat m) \<noteq> CHR ''0''" "hd (str_nat d) \<noteq> CHR ''0''"
    by (simp_all add: str_nat_no_leading_zero)
  have date: "strftime_date dt = str_nat m @ ''/'' @ str_nat d"
    by (simp add: strftime_date_def ymd)
  have 1: "if now < dt then format_duration (dt - now) = Inr dur else dur = ''now''"
    using dur by (auto split: if_splits)
  have 2: "format_reset h r =
               Inr ('' ('' @ dur @ '' - '' @
                    (if dt div DAY = now div DAY then clock_text dt
                     else if dt div DAY = now div DAY + 1
                     then (if dt - now \<le> DAY then ''tmrw '' @ clock_text dt else ''tmrw'')
                     else (if dt - now \<le> DAY
                           then str_nat m @ ''/'' @ str_nat d @ '' '' @ clock_text dt
                           else str_nat m @ ''/'' @ str_nat d)) @ '')'')"
    unfolding format_reset_parsed [OF assms(1,2,3)] reset_text_eq [OF now assms(4) dt] dur
    by (simp add: date)
  have 3: "dt div DAY = now div DAY \<longrightarrow> dt - now \<le> DAY"
    using same_day_less [of dt now] by auto
  from 1 ymd b z 2 3 show ?thesis
    by (intro exI [of _ dur] exI [of _ y] exI [of _ m] exI [of _ d] conjI) assumption+
qed

theorem format_reset_framing_witness:
  "truthy (JStr ''2025-01-16T10:00:00Z'')
   \<and> parse_reset host_example (JStr ''2025-01-16T10:00:00Z'') = Inr 63872596800000000
   \<and> now_CST host_example = Inr 63872573400000000
   \<and> 63872573400000000 + DAY < MAXORDINAL * DAY
   \<and> format_reset host_example (JStr ''2025-01-16T10:00:00Z'') = Inr '' (6h 30m - tmrw 4am)''
   \<and> format_reset host_example (JStr ''2025-01-21T00:00:00Z'') = Inr '' (4.9d - 1/20)''"
proof -
  have r: "63872573400000000 + DAY < MAXORDINAL * DAY" by (simp add: time_eval)
  have t: "truthy (JStr s)" if "s \<noteq> []" for s using that by simp
  from format_reset_framing [OF t parse_example(1) now_example(1) r]
  obtain dur where
    d1: "format_duration (63872596800000000 - 63872573400000000) = Inr dur"
    and f1: "format_reset host_example (JStr ''2025-01-16T10:00:00Z'') =
      Inr ('' ('' @ dur @ '' - '' @ ''tmrw '' @ clock_text 63872596800000000 @ '')'')"
    by (auto simp: DAY_def)
  have "format_duration 23400000000 = Inr ''6h 30m''"
    by (simp add: format_duration_def float_eval str_eval)
  with d1 have dur: "dur = ''6h 30m''" by simp
  have c: "clock_text 63872596800000000 = ''4am''"
    by (simp add: clock_text_eq time_eval str_eval)
  from f1 have a: "format_reset host_example (JStr ''2025-01-16T10:00:00Z'') =
      Inr '' (6h 30m - tmrw 4am)''"
    by (simp add: dur c)
  from format_reset_framing [OF t parse_example(3) now_example(1) r]
  obtain dur' y m d where
    d2: "format_duration (63872992800000000 - 63872573400000000) = Inr dur'"
    and ymd: "ord2ymd (toordinal 63872992800000000) = (y, m, d)"
    and f2: "format_reset host_example (JStr ''2025-01-21T00:00:00Z'') =
      Inr ('' ('' @ dur' @ '' - '' @ str_nat m @ ''/'' @ str_nat d @ '')'')"
    by (auto simp: DAY_def)
  have "format_duration 419400000000 = Inr ''4.9d''"
    by (simp add: format_duration_def float_eval str_eval)
  with d2 have dur': "dur' = ''4.9d''" by simp
  have "ord2ymd (toordinal 63872992800000000) = (2025, 1, 20)"
    by (simp add: ord2ymd_def Let_def DAYS_BEFORE_MONTH_def DAYS_IN_MONTH_def time_eval)
  with ymd have "m = 1" "d = 20" by simp_all
  with f2 dur' have b: "format_reset host_example (JStr ''2025-01-21T00:00:00Z'') =
      Inr '' (4.9d - 1/20)''"
    by (simp add: str_eval)
  from r a b parse_example(1) now_example(1) show ?thesis by simp
qed

text \<open>
  Claim C7. The clock text is the hour of the 12-hour clock without padding, then the
  minutes on two digits after a colon unless they are zero, then \<open>am\<close> or \<open>pm\<close>. When
  the reset instant is not after \<open>now\<close>, the duration label is \<open>now\<close> and the remaining
  duration counts as zero, so the clock is shown however long ago the reset was;
  otherwise the label is the text of \<open>format_duration\<close> for \<open>dt - now\<close>.
\<close>

theorem clock_and_now_label:
  assumes "truthy r" and "parse_reset h r = Inr dt" and "now_CST h = Inr now"
    and "now + DAY < MAXORDINAL * DAY"
  shows "clock_text dt =
           str_nat (if hour_of dt mod 12 = 0 then 12 else hour_of dt mod 12) @
           (if minute_of dt = 0 then []
            else [CHR '':'', digit_char (minute_of dt div 10), digit_char (minute_of dt mod 10)]) @
           (if hour_of dt < 12 then ''am'' else ''pm'')
         \<and> hour_of dt < 24 \<and> minute_of dt < 60
         \<and> hd (str_nat (if hour_of dt mod 12 = 0 then 12 else hour_of dt mod 12)) \<noteq> CHR ''0''
         \<and> (dt \<le> now \<longrightarrow>
              format_reset h r =
                Inr ('' (now - '' @
                     (if dt div DAY = now div DAY then clock_text dt
                      else strftime_date dt @ '' '' @ clock_text dt) @ '')''))
         \<and> (now < dt \<longrightarrow>
              (\<exists>dur rest. format_duration (dt - now) = Inr dur
                 \<and> format_reset h r = Inr ('' ('' @ dur @ '' - '' @ rest)))"
proof -
  from parse_reset_range [OF assms(2)] have dt: "0 \<le> dt" "dt < MAXORDINAL * DAY" by simp_all
  from now_CST_range [OF assms(3)] have now: "0 \<le> now" by simp
  note fr = format_reset_parsed [OF assms(1,2,3)]
  note rt = reset_text_eq [OF now assms(4) dt]
  have 1: "hd (str_nat (if hour_of dt mod 12 = 0 then 12 else hour_of dt mod 12)) \<noteq> CHR ''0''"
    by (rule str_nat_no_leading_zero) simp
  have 2: "format_reset h r =
                Inr ('' (now - '' @
                     (if dt div DAY = now div DAY then clock_text dt
                      else strftime_date dt @ '' '' @ clock_text dt) @ '')'')"
    if "dt \<le> now"
  proof -
    from that have "dt div DAY \<le> now div DAY" by (intro zdiv_mono1) (simp_all add: DAY_def)
    then have "dt div DAY \<noteq> now div DAY + 1" by simp
    moreover have "dt - now \<le> DAY" using that by (simp add: DAY_def)
    ultimately show ?thesis using that unfolding fr rt by simp
  qed
  have 3: "\<exists>dur rest. format_duration (dt - now) = Inr dur
                 \<and> format_reset h r = Inr ('' ('' @ dur @ '' - '' @ rest)"
    if "now < dt"
  proof -
    obtain dur where dur: "format_duration (dt - now) = Inr dur"
      using format_duration_total by blast
    show ?thesis using that unfolding fr rt dur by (auto intro!: exI [of _ dur])
  qed
  from clock_text_eq [of dt] hour_of_less [of dt] minute_of_less [of dt] 1 2 3
  show ?thesis by (intro conjI impI) assumption+
qed

theorem clock_and_now_label_witness:
  "truthy (JStr ''2025-01-16T04:15:00Z'')
   \<and> parse_reset host_later (JStr ''2025-01-16T04:15:00Z'') = Inr 63872576100000000
   \<and> now_CST host_later = Inr 63872604000000000
   \<and> 63872604000000000 + DAY < MAXORDINAL * DAY
   \<and> clock_text 63872576100000000 = ''10:15pm''
   \<and> format_reset host_later (JStr ''2025-01-16T04:15:00Z'') = Inr '' (now - 1/15 10:15pm)''"
proof -
  have r: "63872604000000000 + DAY < MAXORDINAL * DAY" by (simp add: time_eval)
  have p: "parse_reset host_later (JStr ''2025-01-16T04:15:00Z'') = Inr 63872576100000000"
    by (simp add: parse_reset_def host_later_def host_example_def astimezone_CST_def time_eval)
  have t: "truthy (JStr ''2025-01-16T04:15:00Z'')" by simp
  note w = clock_and_now_label [OF t p now_example(2) r]
  from w have c: "clock_text 63872576100000000 = ''10:15pm''"
    by (simp add: time_eval str_eval)
  have date: "strftime_date 63872576100000000 = ''1/15''"
    by (simp add: strftime_date_def ord2ymd_def Let_def DAYS_BEFORE_MONTH_def DAYS_IN_MONTH_def
        time_eval str_eval)
  from w have "format_reset host_later (JStr ''2025-01-16T04:15:00Z'') =
     Inr ('' (now - '' @ strftime_date 63872576100000000 @ '' '' @ clock_text 63872576100000000
          @ '')'')"
    by (simp add: DAY_def)
  then have f: "format_reset host_later (JStr ''2025-01-16T04:15:00Z'') =
     Inr '' (now - 1/15 10:15pm)''"
    by (simp add: c date)
  from t p now_example(2) r c f show ?thesis by simp
qed

end
